theory Spec2Isabelle
  imports Main "HOL-Library.Sublist"
begin

section \<open>Log levels (config/commons.go)\<close>

text \<open>
  \<^verbatim>\<open>slog.Level\<close> is Go's \<^verbatim>\<open>type Level int\<close>; the standard library fixes
  \<^verbatim>\<open>LevelInfo = 0\<close>, \<^verbatim>\<open>LevelWarn = 4\<close> and \<^verbatim>\<open>LevelError = 8\<close>.
\<close>

type_synonym Level = int

definition LevelInfo :: Level where
  "LevelInfo = 0"

definition LevelWarn :: Level where
  "LevelWarn = 4"

definition LevelError :: Level where
  "LevelError = 8"

text \<open>
  \<^verbatim>\<open>func logLevel(value string) slog.Level\<close>: a switch on the string, in the source's
  case order; the case \<^verbatim>\<open>"info", ""\<close> and the default both return \<^verbatim>\<open>slog.LevelInfo\<close>.
\<close>

definition logLevel :: "string \<Rightarrow> Level" where
  "logLevel v =
     (if v = ''silent'' then 99
      else if v = ''error'' then LevelError
      else if v = ''warn'' then LevelWarn
      else if v = ''info'' \<or> v = '''' then LevelInfo
      else LevelInfo)"

section \<open>Errors\<close>

text \<open>
  Go errors as values. \<open>NumError\<close> is \<^verbatim>\<open>*strconv.NumError{Func, Num, Err}\<close> with
  \<open>Err\<close> one of \<^verbatim>\<open>strconv.ErrSyntax\<close> and \<^verbatim>\<open>strconv.ErrRange\<close>. \<open>OpaqueError\<close> is an
  error produced by a collaborator whose text the code never inspects (the operating
  system, the JSON decoder, the validator, the duration and float parsers).
  \<open>Wrapf t e\<close> is \<^verbatim>\<open>fmt.Errorf(t + ": %w", e)\<close> with \<open>t\<close> the formatted text that
  precedes the colon.
\<close>

datatype numErr = ErrSyntax | ErrRange

datatype error =
    NumError string string numErr
  | OpaqueError string
  | Wrapf string error

section \<open>The process environment\<close>

type_synonym environ = "string \<rightharpoonup> string"

text \<open>\<^verbatim>\<open>os.Getenv\<close>: the value of the variable, the empty string when it is unset.\<close>

definition Getenv :: "environ \<Rightarrow> string \<Rightarrow> string" where
  "Getenv env k = (case env k of None \<Rightarrow> [] | Some v \<Rightarrow> v)"

section \<open>Library functions the mapper calls\<close>

subsection \<open>strconv.ParseUint, strconv.ParseInt, strconv.ParseBool\<close>

definition isDigit :: "char \<Rightarrow> bool" where
  "isDigit c = ((48::nat) \<le> of_char c \<and> (of_char c :: nat) \<le> 57)"

definition digitVal :: "char \<Rightarrow> nat" where
  "digitVal c = of_char c - 48"

definition maxUint64 :: nat where
  "maxUint64 = 2 ^ 64 - 1"

text \<open>
  The digit loop of \<^verbatim>\<open>strconv.ParseUint\<close> at base 10: any byte that is not a decimal
  digit is a syntax error; \<open>n \<ge> cutoff\<close> (with \<open>cutoff = maxUint64 / 10 + 1\<close>) means
  \<open>n * 10\<close> overflows, and \<open>n1 < n || n1 > maxVal\<close> means that adding the digit does;
  on unbounded naturals the wrap-around test \<open>n1 < n\<close> is \<open>n1 > maxUint64\<close>. As in
  Go the loop returns at the first offending byte, and a range error carries \<open>maxVal\<close>.
\<close>

fun parseUintLoop :: "string \<Rightarrow> nat \<Rightarrow> string \<Rightarrow> nat \<Rightarrow> nat \<times> error option" where
  "parseUintLoop s0 maxVal [] n = (n, None)"
| "parseUintLoop s0 maxVal (c # cs) n =
     (if \<not> isDigit c then (0, Some (NumError ''ParseUint'' s0 ErrSyntax))
      else if n \<ge> maxUint64 div 10 + 1 then (maxVal, Some (NumError ''ParseUint'' s0 ErrRange))
      else let n1 = n * 10 + digitVal c in
        if n1 > maxUint64 \<or> n1 > maxVal then (maxVal, Some (NumError ''ParseUint'' s0 ErrRange))
        else parseUintLoop s0 maxVal cs n1)"

text \<open>
  \<^verbatim>\<open>strconv.ParseUint(s, 10, bitSize)\<close> for \<open>0 < bitSize \<le> 64\<close>, returning value
  and error as Go does.
\<close>

definition ParseUint :: "string \<Rightarrow> nat \<Rightarrow> nat \<times> error option" where
  "ParseUint s bitSize =
     (if s = [] then (0, Some (NumError ''ParseUint'' s ErrSyntax))
      else parseUintLoop s (2 ^ bitSize - 1) s 0)"

text \<open>
  \<^verbatim>\<open>strconv.ParseInt(s, 10, bitSize)\<close>: an optional sign, then \<open>ParseUint\<close> on the
  rest. A syntax error is re-labelled with \<^verbatim>\<open>ParseInt\<close> and the whole input; a range
  error of \<open>ParseUint\<close> falls through to the cutoff tests with \<open>un = maxVal\<close>.
\<close>

definition ParseInt :: "string \<Rightarrow> nat \<Rightarrow> int \<times> error option" where
  "ParseInt s bitSize =
     (if s = [] then (0, Some (NumError ''ParseInt'' s ErrSyntax))
      else
        let neg = (hd s = CHR ''-'');
            s1 = (if hd s = CHR ''+'' \<or> hd s = CHR ''-'' then tl s else s);
            cutoff = (2::nat) ^ (bitSize - 1)
        in case ParseUint s1 bitSize of
             (un, Some (NumError f n ErrSyntax)) \<Rightarrow> (0, Some (NumError ''ParseInt'' s ErrSyntax))
           | (un, r) \<Rightarrow>
               if \<not> neg \<and> un \<ge> cutoff then (int cutoff - 1, Some (NumError ''ParseInt'' s ErrRange))
               else if neg \<and> un > cutoff then (- int cutoff, Some (NumError ''ParseInt'' s ErrRange))
               else (if neg then - int un else int un, None))"

definition ParseBool :: "string \<Rightarrow> bool \<times> error option" where
  "ParseBool str =
     (if str \<in> set [''1'', ''t'', ''T'', ''true'', ''TRUE'', ''True''] then (True, None)
      else if str \<in> set [''0'', ''f'', ''F'', ''false'', ''FALSE'', ''False''] then (False, None)
      else (False, Some (NumError ''ParseBool'' str ErrSyntax)))"

subsection \<open>strings.Split and strings.TrimSpace\<close>

text \<open>
  \<^verbatim>\<open>strings.Split(s, sep)\<close> for a one-byte separator: the substrings between the
  separators, in order; the empty string yields one empty substring.
\<close>

fun Split :: "string \<Rightarrow> char \<Rightarrow> string list" where
  "Split [] sep = [[]]"
| "Split (c # cs) sep =
     (if c = sep then [] # Split cs sep
      else (case Split cs sep of [] \<Rightarrow> [[c]] | p # ps \<Rightarrow> (c # p) # ps))"

text \<open>
  \<^verbatim>\<open>strings.TrimSpace\<close> removes leading and trailing white space as Unicode defines
  it (\<^verbatim>\<open>unicode.IsSpace\<close>). Go strings are byte sequences, so the white-space runes
  are listed by their UTF-8 encodings: the six ASCII ones (tab, line feed, vertical tab,
  form feed, carriage return, space), U+0085, U+00A0, U+1680, U+2000 to U+200A, U+2028,
  U+2029, U+202F, U+205F and U+3000.
\<close>

definition spaceRunes :: "string list" where
  "spaceRunes =
     [[CHR 0x09], [CHR 0x0A], [CHR 0x0B], [CHR 0x0C], [CHR 0x0D], [CHR 0x20],
      [CHR 0xC2, CHR 0x85], [CHR 0xC2, CHR 0xA0],
      [CHR 0xE1, CHR 0x9A, CHR 0x80],
      [CHR 0xE2, CHR 0x80, CHR 0x80], [CHR 0xE2, CHR 0x80, CHR 0x81],
      [CHR 0xE2, CHR 0x80, CHR 0x82], [CHR 0xE2, CHR 0x80, CHR 0x83],
      [CHR 0xE2, CHR 0x80, CHR 0x84], [CHR 0xE2, CHR 0x80, CHR 0x85],
      [CHR 0xE2, CHR 0x80, CHR 0x86], [CHR 0xE2, CHR 0x80, CHR 0x87],
      [CHR 0xE2, CHR 0x80, CHR 0x88], [CHR 0xE2, CHR 0x80, CHR 0x89],
      [CHR 0xE2, CHR 0x80, CHR 0x8A],
      [CHR 0xE2, CHR 0x80, CHR 0xA8], [CHR 0xE2, CHR 0x80, CHR 0xA9],
      [CHR 0xE2, CHR 0x80, CHR 0xAF],
      [CHR 0xE2, CHR 0x81, CHR 0x9F],
      [CHR 0xE3, CHR 0x80, CHR 0x80]]"

text \<open>
  The width in bytes of the white-space rune that \<open>s\<close> starts with (\<open>leadingSpace\<close>) or
  ends with (\<open>trailingSpace\<close>), and 0 when there is none.
\<close>

definition leadingSpace :: "string \<Rightarrow> nat" where
  "leadingSpace s =
     (case filter (\<lambda>q. take (length q) s = q) spaceRunes of [] \<Rightarrow> 0 | q # _ \<Rightarrow> length q)"

definition trailingSpace :: "string \<Rightarrow> nat" where
  "trailingSpace s =
     (case filter (\<lambda>q. drop (length s - length q) s = q) spaceRunes of
        [] \<Rightarrow> 0 | q # _ \<Rightarrow> length q)"

function TrimLeftSpace :: "string \<Rightarrow> string" where
  "TrimLeftSpace s =
     (if leadingSpace s = 0 then s else TrimLeftSpace (drop (leadingSpace s) s))"
  by pat_completeness auto
termination
proof (relation "measure length")
  show "wf (measure length)" by simp
next
  fix s :: string
  assume "leadingSpace s \<noteq> 0"
  moreover have "leadingSpace [] = 0"
    by (simp add: leadingSpace_def spaceRunes_def)
  ultimately have "s \<noteq> []" by auto
  with \<open>leadingSpace s \<noteq> 0\<close> show "(drop (leadingSpace s) s, s) \<in> measure length"
    by simp
qed

function TrimRightSpace :: "string \<Rightarrow> string" where
  "TrimRightSpace s =
     (if trailingSpace s = 0 then s else TrimRightSpace (take (length s - trailingSpace s) s))"
  by pat_completeness auto
termination
proof (relation "measure length")
  show "wf (measure length)" by simp
next
  fix s :: string
  assume "trailingSpace s \<noteq> 0"
  moreover have "trailingSpace [] = 0"
    by (simp add: trailingSpace_def spaceRunes_def)
  ultimately have "s \<noteq> []" by auto
  with \<open>trailingSpace s \<noteq> 0\<close> show "(take (length s - trailingSpace s) s, s) \<in> measure length"
    by simp
qed

declare TrimLeftSpace.simps [simp del] TrimRightSpace.simps [simp del]

definition TrimSpace :: "string \<Rightarrow> string" where
  "TrimSpace s = TrimRightSpace (TrimLeftSpace s)"

section \<open>Target records as reflection sees them\<close>

text \<open>
  The kinds of \<^verbatim>\<open>reflect.Kind\<close> the mapper's switch names. \<^verbatim>\<open>int\<close> and \<^verbatim>\<open>uint\<close>
  have 64 bits (\<^verbatim>\<open>strconv.IntSize\<close> on 64-bit targets).
\<close>

datatype intKind = KindInt | KindInt8 | KindInt16 | KindInt32 | KindInt64

datatype uintKind = KindUint | KindUint8 | KindUint16 | KindUint32 | KindUint64

datatype floatKind = KindFloat32 | KindFloat64

fun intBits :: "intKind \<Rightarrow> nat" where
  "intBits KindInt = 64"
| "intBits KindInt8 = 8"
| "intBits KindInt16 = 16"
| "intBits KindInt32 = 32"
| "intBits KindInt64 = 64"

fun uintBits :: "uintKind \<Rightarrow> nat" where
  "uintBits KindUint = 64"
| "uintBits KindUint8 = 8"
| "uintBits KindUint16 = 16"
| "uintBits KindUint32 = 32"
| "uintBits KindUint64 = 64"

text \<open>
  A field value, by kind and type. \<open>VDuration\<close> is a field of type \<^verbatim>\<open>time.Duration\<close>
  (kind \<^verbatim>\<open>Int64\<close>), which the switch tells apart from the other integers by its type.
  \<open>VStrings\<close> is a \<^verbatim>\<open>[]string\<close>, \<open>VSlice\<close> a slice of any other element kind, and
  \<open>VOther\<close> a value of a kind the switch has no case for (pointer, map, uintptr,
  complex, ...). The type \<open>'x\<close> holds what the model does not interpret: floating-point
  numbers and the contents of \<open>VSlice\<close> and \<open>VOther\<close>.
  A struct is the list of its fields in declaration order. A field has its name,
  whether it is exported (an unexported field gives \<^verbatim>\<open>CanSet() == false\<close>), its struct
  tag as the list of its key and value pairs, and its value.
\<close>

datatype 'x gval =
    VString string
  | VInt intKind int
  | VDuration int
  | VUint uintKind nat
  | VFloat floatKind 'x
  | VBool bool
  | VStrings "string list"
  | VSlice 'x
  | VStruct "'x field list"
  | VOther 'x
and 'x field =
    Field (fname: string) (exported: bool) (ftags: "(string \<times> string) list") (fval: "'x gval")

text \<open>
  \<^verbatim>\<open>reflect.Value.SetInt\<close> and \<^verbatim>\<open>SetUint\<close> convert the 64-bit argument to the field's
  own integer type, which keeps the low bits (two's complement for the signed kinds).
\<close>

definition SetInt :: "intKind \<Rightarrow> int \<Rightarrow> int" where
  "SetInt k x = signed_take_bit (intBits k - 1) x"

definition SetUint :: "uintKind \<Rightarrow> nat \<Rightarrow> nat" where
  "SetUint k x = take_bit (uintBits k) x"

text \<open>
  The collaborators the model takes as parameters: \<^verbatim>\<open>strconv.ParseFloat(s, 64)\<close>, the
  conversion \<^verbatim>\<open>float32(x)\<close> that \<^verbatim>\<open>SetFloat\<close> applies to a \<^verbatim>\<open>float32\<close> field,
  \<^verbatim>\<open>time.ParseDuration\<close>, \<^verbatim>\<open>json.Unmarshal\<close> onto the record (it returns the record as
  it left it, also when it fails) and \<^verbatim>\<open>validator.New().Struct\<close>.
\<close>

record 'x library =
  ParseFloat :: "string \<Rightarrow> 'x \<times> error option"
  toFloat32 :: "'x \<Rightarrow> 'x"
  ParseDuration :: "string \<Rightarrow> int \<times> error option"
  Unmarshal :: "string \<Rightarrow> 'x field list \<Rightarrow> 'x field list \<times> error option"
  validateStruct :: "'x field list \<Rightarrow> error option"

definition SetFloat :: "'x library \<Rightarrow> floatKind \<Rightarrow> 'x \<Rightarrow> 'x" where
  "SetFloat L k x = (case k of KindFloat32 \<Rightarrow> toFloat32 L x | KindFloat64 \<Rightarrow> x)"

section \<open>The struct reflection mapper: loadEnvToStruct\<close>

text \<open>
  The \<^verbatim>\<open>switch fieldValue.Kind()\<close> of \<^verbatim>\<open>loadEnvToStruct\<close>, for a field whose tag
  names \<open>envVar\<close> and whose environment value \<open>envValue\<close> is not empty: the new value of
  the field, or the error the function returns.
\<close>

fun setFromEnv :: "'x library \<Rightarrow> string \<Rightarrow> string \<Rightarrow> 'x gval \<Rightarrow> error + 'x gval" where
  "setFromEnv L envVar envValue (VString _) = Inr (VString envValue)"
| "setFromEnv L envVar envValue (VDuration d) =
     (case ParseDuration L envValue of
        (duration, Some e) \<Rightarrow> Inl (Wrapf (''invalid duration value for '' @ envVar) e)
      | (duration, None) \<Rightarrow> Inr (VDuration duration))"
| "setFromEnv L envVar envValue (VInt k i) =
     (case ParseInt envValue 64 of
        (val, Some e) \<Rightarrow> Inl (Wrapf (''invalid integer value for '' @ envVar) e)
      | (val, None) \<Rightarrow> Inr (VInt k (SetInt k val)))"
| "setFromEnv L envVar envValue (VUint k u) =
     (case ParseUint envValue 64 of
        (val, Some e) \<Rightarrow> Inl (Wrapf (''invalid unsigned integer value for '' @ envVar) e)
      | (val, None) \<Rightarrow> Inr (VUint k (SetUint k val)))"
| "setFromEnv L envVar envValue (VFloat k x) =
     (case ParseFloat L envValue of
        (val, Some e) \<Rightarrow> Inl (Wrapf (''invalid float value for '' @ envVar) e)
      | (val, None) \<Rightarrow> Inr (VFloat k (SetFloat L k val)))"
| "setFromEnv L envVar envValue (VBool b) =
     (case ParseBool envValue of
        (val, Some e) \<Rightarrow> Inl (Wrapf (''invalid boolean value for '' @ envVar) e)
      | (val, None) \<Rightarrow> Inr (VBool val))"
| "setFromEnv L envVar envValue (VStrings old) =
     Inr (VStrings (map TrimSpace (Split envValue (CHR '',''))))"
| "setFromEnv L envVar envValue (VSlice x) = Inr (VSlice x)"
| "setFromEnv L envVar envValue (VStruct fs) = Inr (VStruct fs)"
| "setFromEnv L envVar envValue (VOther x) = Inr (VOther x)"

text \<open>
  The part of the loop body after the recursion: the tag lookup, the environment
  lookup and the switch. The result is the field's value and the error returned, if any.
\<close>

definition overlayField ::
  "'x library \<Rightarrow> environ \<Rightarrow> string \<Rightarrow> string \<Rightarrow> (string \<times> string) list \<Rightarrow> 'x gval
     \<Rightarrow> 'x gval \<times> error option" where
  "overlayField L env pfx tag tags v =
     (case map_of tags tag of
        None \<Rightarrow> (v, None)
      | Some envVar \<Rightarrow>
          if envVar = [] then (v, None)
          else
            let envValue = Getenv env (pfx @ envVar) in
            if envValue = [] then (v, None)
            else (case setFromEnv L envVar envValue v of
                    Inl e \<Rightarrow> (v, Some e)
                  | Inr v' \<Rightarrow> (v', None)))"

text \<open>
  \<open>loadEnvToStruct\<close> is the \<^verbatim>\<open>for\<close> loop over the fields of the struct, \<open>loadField\<close>
  one pass of its body. The struct is mutated in place, so the result is the struct
  as the function leaves it, together with the error it returns: after an error the
  fields not yet visited are as they were. A field of kind struct never has the type
  \<^verbatim>\<open>time.Duration\<close> (that type has kind \<^verbatim>\<open>Int64\<close>), so the test on line 144 holds for
  every struct and the recursion is always entered.
\<close>

fun loadEnvToStruct ::
  "'x library \<Rightarrow> environ \<Rightarrow> 'x field list \<Rightarrow> string \<Rightarrow> string \<Rightarrow> 'x field list \<times> error option"
and loadField ::
  "'x library \<Rightarrow> environ \<Rightarrow> 'x field \<Rightarrow> string \<Rightarrow> string \<Rightarrow> 'x field \<times> error option" where
  "loadEnvToStruct L env [] pfx tag = ([], None)"
| "loadEnvToStruct L env (f # fs) pfx tag =
     (case loadField L env f pfx tag of
        (f', Some e) \<Rightarrow> (f' # fs, Some e)
      | (f', None) \<Rightarrow>
          (case loadEnvToStruct L env fs pfx tag of (fs', r) \<Rightarrow> (f' # fs', r)))"
| "loadField L env (Field name ex tags v) pfx tag =
     (if \<not> ex then (Field name ex tags v, None)
      else
        case (case v of
                VStruct sub \<Rightarrow>
                  (case loadEnvToStruct L env sub pfx tag of (sub', r) \<Rightarrow> (VStruct sub', r))
              | _ \<Rightarrow> (v, None)) of
          (v1, Some e) \<Rightarrow>
            (Field name ex tags v1, Some (Wrapf (''error loading sub config field '' @ name) e))
        | (v1, None) \<Rightarrow>
            (case overlayField L env pfx tag tags v1 of (v2, r) \<Rightarrow> (Field name ex tags v2, r)))"

section \<open>The ancestor environment-file locator: loadEnvFromAncestors\<close>

text \<open>
  A directory is the list of the path elements below the file-system root, as in the
  rooted, clean path that \<^verbatim>\<open>os.Getwd\<close> returns; the root is the empty list.
  \<^verbatim>\<open>filepath.Dir\<close> drops the last element and returns the root for the root.
\<close>

type_synonym dir = "string list"

definition Dir :: "dir \<Rightarrow> dir" where
  "Dir d = butlast d"

text \<open>
  What the locator finds at \<^verbatim>\<open>filepath.Join(dir, fileName)\<close>: \<^verbatim>\<open>os.Stat\<close> fails
  (\<open>StatError\<close>), or the file is there and \<^verbatim>\<open>godotenv.Load\<close> fails (\<open>LoadError\<close>: a
  directory, an unreadable or a malformed file), or \<^verbatim>\<open>godotenv.Load\<close> parses it to the
  bindings \<open>m\<close> (\<open>Parsed m\<close>).
\<close>

datatype envFile = StatError | LoadError | Parsed "string \<rightharpoonup> string"

datatype logEntry = LoadingEnvFile dir string | NoEnvFilesFound

text \<open>
  The world the builder runs in: the result of \<^verbatim>\<open>os.Getwd\<close>, the candidate files by
  directory and name, the process environment, \<^verbatim>\<open>os.ReadFile\<close> by path, and the lines
  written with \<^verbatim>\<open>slog.Info\<close>.
\<close>

record world =
  Getwd :: "error + dir"
  envFileAt :: "dir \<Rightarrow> string \<Rightarrow> envFile"
  Environ :: environ
  ReadFile :: "string \<Rightarrow> error + string"
  slog :: "logEntry list"

text \<open>
  Modelled from the spec: \<^verbatim>\<open>godotenv.Load\<close> is a third-party function and not part of
  the sources. Of a file it could parse it inserts each binding into the process
  environment, and "an insertion never overwrites a key already present in the
  snapshot": a key that is set, even to the empty string, keeps its value.
\<close>

definition godotenvLoad :: "(string \<rightharpoonup> string) \<Rightarrow> environ \<Rightarrow> environ" where
  "godotenvLoad m env = (\<lambda>k. case env k of Some v \<Rightarrow> Some v | None \<Rightarrow> m k)"

text \<open>
  The inner loop \<^verbatim>\<open>for _, fileName := range filesToTry\<close> in one directory. The state
  is the environment, the log and the flag \<open>found\<close>.
\<close>

fun tryFiles ::
  "(dir \<Rightarrow> string \<Rightarrow> envFile) \<Rightarrow> dir \<Rightarrow> string list \<Rightarrow> environ \<times> logEntry list \<times> bool
     \<Rightarrow> environ \<times> logEntry list \<times> bool" where
  "tryFiles fsys d [] st = st"
| "tryFiles fsys d (fileName # rest) (env, lg, found) =
     (case fsys d fileName of
        Parsed m \<Rightarrow> tryFiles fsys d rest (godotenvLoad m env, lg @ [LoadingEnvFile d fileName], True)
      | _ \<Rightarrow> tryFiles fsys d rest (env, lg, found))"

text \<open>
  The outer loop \<^verbatim>\<open>for { ... }\<close>: the candidates of \<open>d\<close>, then the parent directory,
  until the parent of the directory is the directory itself.
\<close>

function walkUp ::
  "(dir \<Rightarrow> string \<Rightarrow> envFile) \<Rightarrow> string list \<Rightarrow> dir \<Rightarrow> environ \<times> logEntry list \<times> bool
     \<Rightarrow> environ \<times> logEntry list \<times> bool" where
  "walkUp fsys filesToTry d st =
     (let st' = tryFiles fsys d filesToTry st;
          parentDir = Dir d
      in if parentDir = d then st' else walkUp fsys filesToTry parentDir st')"
  by pat_completeness auto
termination
proof (relation "measure (\<lambda>(fsys, filesToTry, d, st). length d)")
  show "wf (measure (\<lambda>(fsys, filesToTry, d, st). length d))" by simp
next
  fix fsys :: "dir \<Rightarrow> string \<Rightarrow> envFile" and filesToTry :: "string list" and d :: dir
    and st st' :: "environ \<times> logEntry list \<times> bool" and parentDir :: dir
  assume "parentDir = Dir d" and "parentDir \<noteq> d"
  then have "d \<noteq> []" by (auto simp: Dir_def)
  with \<open>parentDir = Dir d\<close>
  show "((fsys, filesToTry, parentDir, st'), (fsys, filesToTry, d, st))
          \<in> measure (\<lambda>(fsys, filesToTry, d, st). length d)"
    by (simp add: Dir_def)
qed

declare walkUp.simps [simp del]

text \<open>
  \<open>loadEnvFromAncestors\<close> returns its error and leaves the world changed: the
  environment with the insertions, the log with the lines written.
\<close>

definition loadEnvFromAncestors :: "world \<Rightarrow> string list \<Rightarrow> error option \<times> world" where
  "loadEnvFromAncestors w filesToTry =
     (case Getwd w of
        Inl e \<Rightarrow> (Some e, w)
      | Inr currentDir \<Rightarrow>
          (case walkUp (envFileAt w) filesToTry currentDir (Environ w, slog w, False) of
             (env, lg, found) \<Rightarrow>
               (None, w\<lparr>Environ := env,
                         slog := (if \<not> found then lg @ [NoEnvFilesFound] else lg)\<rparr>)))"

section \<open>The resolution builder\<close>

text \<open>
  \<^verbatim>\<open>Builder[T]\<close>. The type parameter is instantiated with a pointer to a struct
  (\<^verbatim>\<open>json.Unmarshal\<close> and \<^verbatim>\<open>reflect.ValueOf(target).Elem()\<close> need one); \<open>config\<close> is the
  struct it points to, which every overlay mutates in place.
\<close>

record 'x Builder =
  config :: "'x field list"
  err :: "error option"
  envPrefix :: string
  envTag :: string
  envFiles :: "string list"

type_synonym 'x BuilderOption = "'x Builder \<Rightarrow> 'x Builder"

definition WithEnvPrefix :: "string \<Rightarrow> 'x BuilderOption" where
  "WithEnvPrefix p b = b\<lparr>envPrefix := p\<rparr>"

definition WithEnvTag :: "string \<Rightarrow> 'x BuilderOption" where
  "WithEnvTag t b = b\<lparr>envTag := t\<rparr>"

definition WithEnvFiles :: "string list \<Rightarrow> 'x BuilderOption" where
  "WithEnvFiles files b = b\<lparr>envFiles := files\<rparr>"

definition New :: "'x field list \<Rightarrow> 'x BuilderOption list \<Rightarrow> 'x Builder" where
  "New defaultConfig opts =
     fold (\<lambda>opt b. opt b) opts
       \<lparr>config = defaultConfig, err = None, envPrefix = [], envTag = ''env'', envFiles = []\<rparr>"

text \<open>\<open>LoadFile\<close>; the argument \<^verbatim>\<open>filepath *string\<close> is \<open>None\<close> for \<^verbatim>\<open>nil\<close>.\<close>

definition LoadFile :: "'x library \<Rightarrow> world \<Rightarrow> 'x Builder \<Rightarrow> string option \<Rightarrow> 'x Builder" where
  "LoadFile L w b filepath =
     (if err b \<noteq> None then b
      else case filepath of
        None \<Rightarrow> b
      | Some p \<Rightarrow>
          if p = [] then b
          else (case ReadFile w p of
                  Inl e \<Rightarrow> b\<lparr>err := Some (Wrapf ''failed to read config file'' e)\<rparr>
                | Inr data \<Rightarrow>
                    (case Unmarshal L data (config b) of
                       (c, Some e) \<Rightarrow>
                         b\<lparr>config := c, err := Some (Wrapf ''failed to parse config file'' e)\<rparr>
                     | (c, None) \<Rightarrow> b\<lparr>config := c\<rparr>)))"

text \<open>\<open>WithEnv\<close> returns the builder and the world as the locator left it.\<close>

definition WithEnv :: "'x library \<Rightarrow> world \<Rightarrow> 'x Builder \<Rightarrow> 'x Builder \<times> world" where
  "WithEnv L w b =
     (if err b \<noteq> None then (b, w)
      else case loadEnvFromAncestors w (envFiles b) of
        (Some e, w') \<Rightarrow> (b\<lparr>err := Some (Wrapf ''failed to load environment variables'' e)\<rparr>, w')
      | (None, w') \<Rightarrow>
          (case loadEnvToStruct L (Environ w') (config b) (envPrefix b) (envTag b) of
             (c, Some e) \<Rightarrow>
               (b\<lparr>config := c,
                   err := Some (Wrapf ''failed to override configuration from environment'' e)\<rparr>,
                w')
           | (c, None) \<Rightarrow> (b\<lparr>config := c\<rparr>, w')))"

text \<open>
  \<open>Build\<close> returns \<^verbatim>\<open>(T, error)\<close>: the zero value of the pointer type \<open>T\<close> is
  \<^verbatim>\<open>nil\<close>, here \<open>None\<close>. The third component lists the records handed to the
  validator, one entry for each call of \<^verbatim>\<open>v.Struct\<close>.
\<close>

definition Build ::
  "'x library \<Rightarrow> 'x Builder \<Rightarrow> 'x field list option \<times> error option \<times> 'x field list list" where
  "Build L b =
     (case err b of
        Some e \<Rightarrow> (None, Some e, [])
      | None \<Rightarrow>
          (case validateStruct L (config b) of
             Some e \<Rightarrow> (None, Some (Wrapf ''invalid configuration'' e), [config b])
           | None \<Rightarrow> (Some (config b), None, [config b])))"

text \<open>A chain of overlay calls on one builder, in order.\<close>

datatype chainOp = OpLoadFile "string option" | OpWithEnv

fun chainStep :: "'x library \<Rightarrow> chainOp \<Rightarrow> 'x Builder \<times> world \<Rightarrow> 'x Builder \<times> world" where
  "chainStep L (OpLoadFile p) (b, w) = (LoadFile L w b p, w)"
| "chainStep L OpWithEnv (b, w) = WithEnv L w b"

definition chain :: "'x library \<Rightarrow> chainOp list \<Rightarrow> 'x Builder \<times> world \<Rightarrow> 'x Builder \<times> world" where
  "chain L ops st = fold (chainStep L) ops st"

section \<open>Specification-level notions\<close>

text \<open>
  The directories the locator is to search, nearest first: the working directory, its
  parent, and so on up to the root.
\<close>

definition ancestors :: "dir \<Rightarrow> dir list" where
  "ancestors d = rev (prefixes d)"

text \<open>
  The candidate files in the iteration order of the spec: directory by directory from
  the working directory up to the root, and within a directory in the order of the
  caller's list.
\<close>

definition candidates :: "(dir \<Rightarrow> string \<Rightarrow> envFile) \<Rightarrow> dir \<Rightarrow> string list \<Rightarrow> envFile list" where
  "candidates fsys d filesToTry = concat (map (\<lambda>a. map (fsys a) filesToTry) (ancestors d))"

text \<open>The binding of a key in the first file of a list that was loaded and has the key.\<close>

fun firstBinding :: "string \<Rightarrow> envFile list \<Rightarrow> string option" where
  "firstBinding k [] = None"
| "firstBinding k (Parsed m # fs) = (case m k of Some v \<Rightarrow> Some v | None \<Rightarrow> firstBinding k fs)"
| "firstBinding k (_ # fs) = firstBinding k fs"

text \<open>
  An error wrapped once for each nested record on the way down to the failing field:
  \<open>path\<close> lists the names of the enclosing record fields, outermost first.
\<close>

fun wrapPath :: "string list \<Rightarrow> error \<Rightarrow> error" where
  "wrapPath [] e = e"
| "wrapPath (n # ns) e = Wrapf (''error loading sub config field '' @ n) (wrapPath ns e)"

text \<open>
  The first field, in the depth-first walk in declaration order, whose value fails to
  coerce: the names of the record fields that enclose it and its coercion error.
\<close>

fun firstFailure ::
  "'x library \<Rightarrow> environ \<Rightarrow> string \<Rightarrow> string \<Rightarrow> 'x field list \<Rightarrow> (string list \<times> error) option"
and fieldFailure ::
  "'x library \<Rightarrow> environ \<Rightarrow> string \<Rightarrow> string \<Rightarrow> 'x field \<Rightarrow> (string list \<times> error) option" where
  "firstFailure L env pfx tag [] = None"
| "firstFailure L env pfx tag (f # fs) =
     (case fieldFailure L env pfx tag f of
        Some r \<Rightarrow> Some r
      | None \<Rightarrow> firstFailure L env pfx tag fs)"
| "fieldFailure L env pfx tag (Field name ex tags v) =
     (if \<not> ex then None
      else case v of
        VStruct sub \<Rightarrow>
          (case firstFailure L env pfx tag sub of
             Some (path, e) \<Rightarrow> Some (name # path, e)
           | None \<Rightarrow> None)
      | _ \<Rightarrow> (case snd (overlayField L env pfx tag tags v) of
                Some e \<Rightarrow> Some ([], e)
              | None \<Rightarrow> None))"

text \<open>
  Base-10 literals as the spec words them. \<open>decimal\<close> is the value of a string of
  decimal digits, \<open>isDecimal\<close> says that a string is a non-empty string of decimal
  digits, and \<open>intLiteral\<close> is the value of an optional sign followed by such a string.
\<close>

definition decimal :: "string \<Rightarrow> nat" where
  "decimal s = foldl (\<lambda>n c. n * 10 + digitVal c) 0 s"

definition isDecimal :: "string \<Rightarrow> bool" where
  "isDecimal s = (s \<noteq> [] \<and> list_all isDigit s)"

definition intLiteral :: "string \<Rightarrow> int option" where
  "intLiteral s =
     (case s of
        [] \<Rightarrow> None
      | c # cs \<Rightarrow>
          if c = CHR ''-'' then (if isDecimal cs then Some (- int (decimal cs)) else None)
          else if c = CHR ''+'' then (if isDecimal cs then Some (int (decimal cs)) else None)
          else if isDecimal s then Some (int (decimal s)) else None)"

text \<open>The text that the switch puts before the name of the annotation in a coercion error, by kind.\<close>

fun coercionText :: "'x gval \<Rightarrow> string" where
  "coercionText (VDuration d) = ''invalid duration value for ''"
| "coercionText (VInt k i) = ''invalid integer value for ''"
| "coercionText (VUint k u) = ''invalid unsigned integer value for ''"
| "coercionText (VFloat k x) = ''invalid float value for ''"
| "coercionText (VBool b) = ''invalid boolean value for ''"
| "coercionText v = []"

section \<open>Concrete inputs\<close>

text \<open>
  A library, a world and records to evaluate the model on. The records are those of the
  repository's tests (\<^verbatim>\<open>testConfig\<close>, \<^verbatim>\<open>TestConfigWithNested\<close>).
\<close>

definition exampleLibrary :: "unit library" where
  "exampleLibrary =
     \<lparr>ParseFloat = (\<lambda>s. ((), Some (OpaqueError ''strconv.ParseFloat: invalid syntax''))),
      toFloat32 = (\<lambda>x. x),
      ParseDuration = (\<lambda>s. if s = ''5m30s'' then (330000000000, None)
                            else (0, Some (OpaqueError ''time: invalid duration''))),
      Unmarshal = (\<lambda>data c. if data = ''{}'' then (c, None)
                              else (c, Some (OpaqueError ''invalid character''))),
      validateStruct = (\<lambda>c. if c = [] then Some (OpaqueError ''validation failed'') else None)\<rparr>"

definition exampleWorld :: world where
  "exampleWorld =
     \<lparr>Getwd = Inr [''srv'', ''app''],
      envFileAt = (\<lambda>d f.
        if d = [''srv'', ''app''] \<and> f = ''.env''
          then Parsed [''PORT'' \<mapsto> ''1111'', ''NAME'' \<mapsto> ''near'']
        else if d = [''srv''] \<and> f = ''.env''
          then Parsed [''PORT'' \<mapsto> ''2222'', ''TAGS'' \<mapsto> ''a, b'']
        else if d = [] \<and> f = ''.env'' then LoadError
        else StatError),
      Environ = [''NAME'' \<mapsto> ''from-env''],
      ReadFile = (\<lambda>p. if p = ''config.json'' then Inr ''{}''
                       else if p = ''broken.json'' then Inr ''{''
                       else Inl (OpaqueError ''no such file or directory'')),
      slog = []\<rparr>"

definition testConfig :: "unit field list" where
  "testConfig =
     [Field ''Name'' True [(''json'', ''name''), (''env'', ''NAME'')] (VString ''test-app''),
      Field ''Port'' True [(''json'', ''port''), (''env'', ''PORT'')] (VInt KindInt 8080),
      Field ''Enabled'' True [(''json'', ''enabled''), (''env'', ''ENABLED'')] (VBool True),
      Field ''MaxConns'' True [(''json'', ''max_conns''), (''env'', ''MAX_CONNS'')] (VUint KindUint 100),
      Field ''Tags'' True [(''json'', ''tags''), (''env'', ''TAGS'')] (VStrings [''default''])]"

definition nestedConfig :: "unit field list" where
  "nestedConfig =
     [Field ''Name'' True [(''env'', ''NAME'')] (VString ''test''),
      Field ''Nested'' True [(''env'', ''NESTED'')]
        (VStruct [Field ''Value'' True [(''env'', ''VALUE'')] (VString ''default''),
                  Field ''Limit'' True [(''env'', ''LIMIT'')] (VInt KindInt 10)]),
      Field ''Tags'' True [(''env'', ''TAGS'')] (VStrings [''default''])]"

definition deepConfig :: "unit field list" where
  "deepConfig =
     [Field ''Name'' True [(''env'', ''NAME'')] (VString ''test''),
      Field ''Outer'' True []
        (VStruct
          [Field ''Inner'' True []
             (VStruct
               [Field ''Value'' True [(''env'', ''VALUE'')] (VString ''default''),
                Field ''Limit'' True [(''env'', ''LIMIT'')] (VInt KindInt 10),
                Field ''After'' True [(''env'', ''AFTER'')] (VString ''unset'')]),
           Field ''Sibling'' True [(''env'', ''SIBLING'')] (VString ''unset'')]),
      Field ''Tags'' True [(''env'', ''TAGS'')] (VStrings [''default''])]"

definition deepEnv :: environ where
  "deepEnv = [''NAME'' \<mapsto> ''n'', ''VALUE'' \<mapsto> ''v'', ''LIMIT'' \<mapsto> ''oops'',
              ''AFTER'' \<mapsto> ''a'', ''SIBLING'' \<mapsto> ''s'', ''TAGS'' \<mapsto> ''x,y'']"

definition poisoned :: "unit Builder" where
  "poisoned =
     (New testConfig [])\<lparr>err :=
        Some (Wrapf ''failed to read config file'' (OpaqueError ''no such file or directory''))\<rparr>"

section \<open>Theorems\<close>

subsection \<open>The builder\<close>

text \<open>
  C1. Poison latch: in every builder state whose terminal error is set, \<open>LoadFile\<close>
  with any path and \<open>WithEnv\<close> return the same builder state unchanged (and leave the
  world as it was), so does any chain of them, and \<open>Build\<close> then returns the zero value
  of the record type with the error that was recorded, without calling the validator.
\<close>

theorem poison_latch:
  assumes "err b = Some e"
  shows "LoadFile L w b p = b \<and> WithEnv L w b = (b, w) \<and> chain L ops (b, w) = (b, w) \<and>
         Build L (fst (chain L ops (b, w))) = (None, Some e, [])"
proof -
  have lf: "LoadFile L w b p = b" for p w
    using assms by (simp add: LoadFile_def)
  have we: "WithEnv L w b = (b, w)" for w
    using assms by (simp add: WithEnv_def)
  have step: "chainStep L x (b, w) = (b, w)" for x w
    by (cases x) (simp_all add: lf we)
  have ch: "chain L ops (b, w) = (b, w)"
    unfolding chain_def by (induction ops) (simp_all add: step)
  have "Build L b = (None, Some e, [])"
    using assms by (simp add: Build_def)
  with lf we ch show ?thesis by simp
qed

theorem poison_latch_witness:
  "LoadFile exampleLibrary exampleWorld poisoned (Some ''config.json'') = poisoned \<and>
   WithEnv exampleLibrary exampleWorld poisoned = (poisoned, exampleWorld) \<and>
   chain exampleLibrary [OpLoadFile (Some ''config.json''), OpWithEnv, OpLoadFile None]
     (poisoned, exampleWorld) = (poisoned, exampleWorld) \<and>
   Build exampleLibrary
     (fst (chain exampleLibrary [OpLoadFile (Some ''config.json''), OpWithEnv, OpLoadFile None]
        (poisoned, exampleWorld))) =
     (None, Some (Wrapf ''failed to read config file'' (OpaqueError ''no such file or directory'')), [])"
proof -
  have "err poisoned =
      Some (Wrapf ''failed to read config file'' (OpaqueError ''no such file or directory''))"
    by (simp add: poisoned_def)
  then show ?thesis by (rule poison_latch)
qed

text \<open>
  C3. Validation gate: when the builder is Clean, \<open>Build\<close> runs the validation of the
  record exactly once (the validator is called on the builder's record and on nothing
  else); if it fails, \<open>Build\<close> returns the zero value of the record type and the
  validation error wrapped with "invalid configuration"; if it succeeds, \<open>Build\<close>
  returns the builder's record and no error.
\<close>

theorem validation_gate:
  assumes "err b = None"
  shows "snd (snd (Build L b)) = [config b] \<and>
         (\<forall>e. validateStruct L (config b) = Some e \<longrightarrow>
              Build L b = (None, Some (Wrapf ''invalid configuration'' e), [config b])) \<and>
         (validateStruct L (config b) = None \<longrightarrow> Build L b = (Some (config b), None, [config b]))"
  using assms by (simp add: Build_def split: option.splits)

theorem validation_gate_witness:
  "Build exampleLibrary (New testConfig []) = (Some testConfig, None, [testConfig]) \<and>
   Build exampleLibrary (New [] []) =
     (None, Some (Wrapf ''invalid configuration'' (OpaqueError ''validation failed'')), [[]])"
proof -
  have ok: "err (New testConfig [] :: unit Builder) = None"
    and bad: "err (New [] [] :: unit Builder) = None"
    by (simp_all add: New_def)
  have v1: "validateStruct exampleLibrary (config (New testConfig [])) = None"
    by (simp add: New_def exampleLibrary_def testConfig_def)
  have v2: "validateStruct exampleLibrary (config (New [] [])) = Some (OpaqueError ''validation failed'')"
    by (simp add: New_def exampleLibrary_def)
  from validation_gate[OF ok, of exampleLibrary] v1
  have "Build exampleLibrary (New testConfig []) = (Some testConfig, None, [testConfig])"
    by (simp add: New_def)
  moreover from validation_gate[OF bad, of exampleLibrary] v2
  have "Build exampleLibrary (New [] []) =
     (None, Some (Wrapf ''invalid configuration'' (OpaqueError ''validation failed'')), [[]])"
    by (simp add: New_def)
  ultimately show ?thesis by simp
qed

text \<open>
  C8. File overlay: \<open>LoadFile\<close> with a nil path or with the empty path returns the
  builder as it was (a Clean builder stays Clean, the record is unchanged). From a Clean
  builder, a file that cannot be read sets the terminal error to the read error wrapped
  with "failed to read config file", and a file whose contents the JSON decoder rejects
  sets it to the decoder's error wrapped with "failed to parse config file". Both are
  errors of the same form; \<open>Build\<close> then returns the zero value and that error, so
  the caller tells the two failures apart by the error text only.
\<close>

theorem file_overlay:
  "LoadFile L w b None = b \<and> LoadFile L w b (Some []) = b \<and>
   (\<forall>p e. err b = None \<and> p \<noteq> [] \<and> ReadFile w p = Inl e \<longrightarrow>
      LoadFile L w b (Some p) = b\<lparr>err := Some (Wrapf ''failed to read config file'' e)\<rparr> \<and>
      Build L (LoadFile L w b (Some p)) = (None, Some (Wrapf ''failed to read config file'' e), [])) \<and>
   (\<forall>p data c e. err b = None \<and> p \<noteq> [] \<and> ReadFile w p = Inr data \<and>
        Unmarshal L data (config b) = (c, Some e) \<longrightarrow>
      LoadFile L w b (Some p) =
        b\<lparr>config := c, err := Some (Wrapf ''failed to parse config file'' e)\<rparr> \<and>
      Build L (LoadFile L w b (Some p)) = (None, Some (Wrapf ''failed to parse config file'' e), []))"
  by (simp add: LoadFile_def Build_def)

theorem file_overlay_witness:
  "LoadFile exampleLibrary exampleWorld (New testConfig []) None = New testConfig [] \<and>
   LoadFile exampleLibrary exampleWorld (New testConfig []) (Some []) = New testConfig [] \<and>
   Build exampleLibrary (LoadFile exampleLibrary exampleWorld (New testConfig []) (Some ''missing.json'')) =
     (None, Some (Wrapf ''failed to read config file'' (OpaqueError ''no such file or directory'')), []) \<and>
   Build exampleLibrary (LoadFile exampleLibrary exampleWorld (New testConfig []) (Some ''broken.json'')) =
     (None, Some (Wrapf ''failed to parse config file'' (OpaqueError ''invalid character'')), [])"
proof -
  let ?b = "New testConfig [] :: unit Builder"
  have clean: "err ?b = None" by (simp add: New_def)
  have r: "ReadFile exampleWorld ''missing.json'' = Inl (OpaqueError ''no such file or directory'')"
    by (simp add: exampleWorld_def)
  have p: "ReadFile exampleWorld ''broken.json'' = Inr ''{''"
    by (simp add: exampleWorld_def)
  have u: "Unmarshal exampleLibrary ''{'' (config ?b) = (config ?b, Some (OpaqueError ''invalid character''))"
    by (simp add: exampleLibrary_def)
  note fo = file_overlay[of exampleLibrary exampleWorld ?b]
  have a: "LoadFile exampleLibrary exampleWorld ?b None = ?b"
    by (rule fo[THEN conjunct1])
  have b: "LoadFile exampleLibrary exampleWorld ?b (Some []) = ?b"
    by (rule fo[THEN conjunct2, THEN conjunct1])
  have c:
    "Build exampleLibrary (LoadFile exampleLibrary exampleWorld ?b (Some ''missing.json'')) =
     (None, Some (Wrapf ''failed to read config file'' (OpaqueError ''no such file or directory'')), [])"
  proof (rule fo[THEN conjunct2, THEN conjunct2, THEN conjunct1, rule_format, THEN conjunct2])
    show "err ?b = None \<and> ''missing.json'' \<noteq> [] \<and>
        ReadFile exampleWorld ''missing.json'' = Inl (OpaqueError ''no such file or directory'')"
      using clean r by simp
  qed
  have d:
    "Build exampleLibrary (LoadFile exampleLibrary exampleWorld ?b (Some ''broken.json'')) =
     (None, Some (Wrapf ''failed to parse config file'' (OpaqueError ''invalid character'')), [])"
  proof (rule fo[THEN conjunct2, THEN conjunct2, THEN conjunct2, rule_format, THEN conjunct2])
    show "err ?b = None \<and> ''broken.json'' \<noteq> [] \<and>
        ReadFile exampleWorld ''broken.json'' = Inr ''{'' \<and>
        Unmarshal exampleLibrary ''{'' (config ?b) = (config ?b, Some (OpaqueError ''invalid character''))"
      using clean p u by simp
  qed
  from a b c d show ?thesis by simp
qed

subsection \<open>The locator\<close>

lemma firstBinding_append:
  "firstBinding k (xs @ ys) =
     (case firstBinding k xs of Some v \<Rightarrow> Some v | None \<Rightarrow> firstBinding k ys)"
  by (induction k xs rule: firstBinding.induct) (auto split: option.splits)

lemma tryFiles_env:
  "fst (tryFiles fsys d fs (env, lg, found)) k =
     (case env k of Some v \<Rightarrow> Some v | None \<Rightarrow> firstBinding k (map (fsys d) fs))"
proof (induction fs arbitrary: env lg found)
  case Nil
  then show ?case by (simp split: option.splits)
next
  case (Cons f fs)
  show ?case
    by (cases "fsys d f") (simp_all add: Cons godotenvLoad_def split: option.splits)
qed

text \<open>The walk visits exactly the ancestors of the directory it starts in, nearest first.\<close>

lemma walkUp_fold:
  "walkUp fsys fs d st = fold (\<lambda>a. tryFiles fsys a fs) (ancestors d) st"
proof (induction d arbitrary: st rule: rev_induct)
  case Nil
  show ?case by (subst walkUp.simps) (simp add: Dir_def ancestors_def)
next
  case (snoc x xs)
  show ?case
    by (subst walkUp.simps) (simp add: Dir_def ancestors_def snoc[unfolded ancestors_def])
qed

lemma fold_tryFiles_env:
  "fst (fold (\<lambda>a. tryFiles fsys a fs) ds (env, lg, found)) k =
     (case env k of Some v \<Rightarrow> Some v
      | None \<Rightarrow> firstBinding k (concat (map (\<lambda>a. map (fsys a) fs) ds)))"
proof (induction ds arbitrary: env lg found)
  case Nil
  then show ?case by (simp split: option.splits)
next
  case (Cons a ds)
  obtain env' lg' found' where st: "tryFiles fsys a fs (env, lg, found) = (env', lg', found')"
    by (cases "tryFiles fsys a fs (env, lg, found)") auto
  have e: "env' k = (case env k of Some v \<Rightarrow> Some v | None \<Rightarrow> firstBinding k (map (fsys a) fs))"
    using tryFiles_env[of fsys a fs env lg found k] st by simp
  show ?case
    by (simp add: st Cons e firstBinding_append split: option.splits)
qed

lemma environ_after_locator:
  "Environ (snd (loadEnvFromAncestors w filesToTry)) k =
     (case Environ w k of
        Some v \<Rightarrow> Some v
      | None \<Rightarrow>
          (case Getwd w of
             Inl e \<Rightarrow> None
           | Inr currentDir \<Rightarrow> firstBinding k (candidates (envFileAt w) currentDir filesToTry)))"
proof (cases "Getwd w")
  case (Inl e)
  then show ?thesis by (simp add: loadEnvFromAncestors_def split: option.splits)
next
  case (Inr cwd)
  obtain env lg found where st:
    "fold (\<lambda>a. tryFiles (envFileAt w) a filesToTry) (ancestors cwd) (Environ w, slog w, False) =
       (env, lg, found)"
    by (cases "fold (\<lambda>a. tryFiles (envFileAt w) a filesToTry) (ancestors cwd)
                 (Environ w, slog w, False)") auto
  have "env k = (case Environ w k of Some v \<Rightarrow> Some v
      | None \<Rightarrow> firstBinding k (candidates (envFileAt w) cwd filesToTry))"
    unfolding candidates_def
    using fold_tryFiles_env[of "envFileAt w" filesToTry "ancestors cwd" "Environ w" "slog w" False k] st
    by simp
  then show ?thesis
    by (simp add: loadEnvFromAncestors_def Inr walkUp_fold st split: option.splits)
qed

text \<open>
  C2. Precedence law: whatever the locator returns, a key that the process environment
  held before the locator ran keeps its value, whatever the discovered files bind it to;
  and a key it did not hold gets the binding of the first file, in the order of the
  directories from the working directory up to the root and within a directory in the
  order of the caller's candidates, that was loaded and binds the key (and stays unset
  when there is none).
\<close>

theorem precedence_law:
  "(\<forall>v. Environ w k = Some v \<longrightarrow>
      Environ (snd (loadEnvFromAncestors w filesToTry)) k = Some v) \<and>
   (\<forall>currentDir. Environ w k = None \<and> Getwd w = Inr currentDir \<longrightarrow>
      Environ (snd (loadEnvFromAncestors w filesToTry)) k =
        firstBinding k (candidates (envFileAt w) currentDir filesToTry))"
  by (simp add: environ_after_locator)

theorem precedence_law_witness:
  "Environ (snd (loadEnvFromAncestors exampleWorld [''.env.local'', ''.env''])) ''NAME'' =
     Some ''from-env'' \<and>
   Environ (snd (loadEnvFromAncestors exampleWorld [''.env.local'', ''.env''])) ''PORT'' =
     Some ''1111'' \<and>
   Environ (snd (loadEnvFromAncestors exampleWorld [''.env.local'', ''.env''])) ''TAGS'' =
     Some ''a, b''"
proof -
  let ?fs = "[''.env.local'', ''.env'']"
  have wd: "Getwd exampleWorld = Inr [''srv'', ''app'']"
    by (simp add: exampleWorld_def)
  have name: "Environ exampleWorld ''NAME'' = Some ''from-env''"
    and port: "Environ exampleWorld ''PORT'' = None"
    and tags: "Environ exampleWorld ''TAGS'' = None"
    by (simp_all add: exampleWorld_def)
  have c: "candidates (envFileAt exampleWorld) [''srv'', ''app''] ?fs =
      [StatError, Parsed [''PORT'' \<mapsto> ''1111'', ''NAME'' \<mapsto> ''near''],
       StatError, Parsed [''PORT'' \<mapsto> ''2222'', ''TAGS'' \<mapsto> ''a, b''],
       StatError, LoadError]"
    by (simp add: candidates_def ancestors_def exampleWorld_def)
  from precedence_law[of exampleWorld "''NAME''" ?fs] name
  have "Environ (snd (loadEnvFromAncestors exampleWorld ?fs)) ''NAME'' = Some ''from-env''"
    by simp
  moreover from precedence_law[of exampleWorld "''PORT''" ?fs] port wd
  have "Environ (snd (loadEnvFromAncestors exampleWorld ?fs)) ''PORT'' = Some ''1111''"
    by (simp add: c)
  moreover from precedence_law[of exampleWorld "''TAGS''" ?fs] tags wd
  have "Environ (snd (loadEnvFromAncestors exampleWorld ?fs)) ''TAGS'' = Some ''a, b''"
    by (simp add: c)
  ultimately show ?thesis by simp
qed

text \<open>
  C9. Locator error policy and termination: \<open>loadEnvFromAncestors\<close> returns an error
  exactly when the working directory cannot be determined, and then it is that error.
  For every other input (any list of candidates, empty or not, and any state of the
  candidate files: missing, unloadable or parsed) the directory walk ends and the
  locator returns success: the walk is the finite iteration over the ancestors of the
  working directory, one more than the directory has path elements, and its last
  directory is the root, which is its own parent.
\<close>

theorem locator_errors:
  "fst (loadEnvFromAncestors w filesToTry) = (case Getwd w of Inl e \<Rightarrow> Some e | Inr d \<Rightarrow> None) \<and>
   (\<forall>currentDir. Getwd w = Inr currentDir \<longrightarrow>
      walkUp (envFileAt w) filesToTry currentDir st =
        fold (\<lambda>a. tryFiles (envFileAt w) a filesToTry) (ancestors currentDir) st \<and>
      length (ancestors currentDir) = length currentDir + 1 \<and>
      last (ancestors currentDir) = [] \<and> Dir [] = [])"
  by (auto simp: loadEnvFromAncestors_def walkUp_fold ancestors_def Dir_def last_rev
      split: sum.splits prod.splits)

theorem locator_errors_witness:
  "fst (loadEnvFromAncestors exampleWorld []) = None \<and>
   fst (loadEnvFromAncestors exampleWorld [''.env'', ''absent.env'']) = None \<and>
   fst (loadEnvFromAncestors (exampleWorld\<lparr>Getwd := Inl (OpaqueError ''getwd: no such file or directory'')\<rparr>)
          [''.env'']) = Some (OpaqueError ''getwd: no such file or directory'') \<and>
   length (ancestors [''srv'', ''app'']) = 3"
proof -
  have wd: "Getwd exampleWorld = Inr [''srv'', ''app'']"
    by (simp add: exampleWorld_def)
  from locator_errors[of exampleWorld "[]"] wd
  have a: "fst (loadEnvFromAncestors exampleWorld []) = None"
    and n: "length (ancestors [''srv'', ''app'']) = 3"
    by simp_all
  from locator_errors[of exampleWorld "[''.env'', ''absent.env'']"] wd
  have b: "fst (loadEnvFromAncestors exampleWorld [''.env'', ''absent.env'']) = None"
    by simp
  from locator_errors[of "exampleWorld\<lparr>Getwd := Inl (OpaqueError ''getwd: no such file or directory'')\<rparr>"
      "[''.env'']"]
  have c: "fst (loadEnvFromAncestors
        (exampleWorld\<lparr>Getwd := Inl (OpaqueError ''getwd: no such file or directory'')\<rparr>) [''.env'']) =
      Some (OpaqueError ''getwd: no such file or directory'')"
    by simp
  from a b c n show ?thesis by simp
qed

subsection \<open>The mapper: integers\<close>

lemma foldl_digits_mono: "n \<le> foldl (\<lambda>n c. n * 10 + digitVal c) n cs"
proof (induction cs arbitrary: n)
  case Nil
  show ?case by simp
next
  case (Cons c cs)
  have "n \<le> n * 10 + digitVal c" by simp
  also have "\<dots> \<le> foldl (\<lambda>n c. n * 10 + digitVal c) (n * 10 + digitVal c) cs"
    by (rule Cons.IH)
  finally show ?case by simp
qed

lemma parseUintLoop_digits:
  assumes "list_all isDigit cs" and "maxVal \<le> maxUint64" and "n \<le> maxVal"
  shows "parseUintLoop s0 maxVal cs n =
     (if foldl (\<lambda>n c. n * 10 + digitVal c) n cs \<le> maxVal
      then (foldl (\<lambda>n c. n * 10 + digitVal c) n cs, None)
      else (maxVal, Some (NumError ''ParseUint'' s0 ErrRange)))"
  using assms
proof (induction cs arbitrary: n)
  case Nil
  then show ?case by simp
next
  case (Cons c cs)
  let ?n1 = "n * 10 + digitVal c"
  have mono: "?n1 \<le> foldl (\<lambda>n c. n * 10 + digitVal c) ?n1 cs"
    by (rule foldl_digits_mono)
  from Cons.prems have dig: "isDigit c" "list_all isDigit cs" by simp_all
  show ?case
  proof (cases "n \<ge> maxUint64 div 10 + 1")
    case True
    then have "?n1 > maxUint64" by (simp add: maxUint64_def)
    with mono Cons.prems(2) have "\<not> foldl (\<lambda>n c. n * 10 + digitVal c) ?n1 cs \<le> maxVal"
      by linarith
    with True dig show ?thesis by simp
  next
    case False
    show ?thesis
    proof (cases "?n1 > maxUint64 \<or> ?n1 > maxVal")
      case True
      with Cons.prems(2) have "?n1 > maxVal" by linarith
      with mono have "\<not> foldl (\<lambda>n c. n * 10 + digitVal c) ?n1 cs \<le> maxVal"
        by linarith
      with False True dig show ?thesis by (simp add: Let_def)
    next
      case n1: False
      then have "?n1 \<le> maxVal" by simp
      from Cons.IH[OF dig(2) Cons.prems(2) this] False n1 dig show ?thesis
        by (simp add: Let_def)
    qed
  qed
qed

lemma parseUintLoop_nondigit:
  assumes "\<not> list_all isDigit cs"
  shows "parseUintLoop s0 maxVal cs n = (0, Some (NumError ''ParseUint'' s0 ErrSyntax)) \<or>
         parseUintLoop s0 maxVal cs n = (maxVal, Some (NumError ''ParseUint'' s0 ErrRange))"
  using assms
proof (induction cs arbitrary: n)
  case Nil
  then show ?case by simp
next
  case (Cons c cs)
  show ?case
  proof (cases "isDigit c")
    case False
    then show ?thesis by simp
  next
    case True
    with Cons.prems have "\<not> list_all isDigit cs" by simp
    from Cons.IH[OF this] True show ?thesis
      by (simp add: Let_def)
  qed
qed

lemma ParseUint_64:
  "ParseUint s 64 =
     (if s = [] then (0, Some (NumError ''ParseUint'' s ErrSyntax))
      else parseUintLoop s maxUint64 s 0)"
  by (simp add: ParseUint_def maxUint64_def)

lemma ParseUint_cases:
  "ParseUint s 64 =
     (if isDecimal s \<and> decimal s \<le> maxUint64 then (decimal s, None)
      else if isDecimal s then (maxUint64, Some (NumError ''ParseUint'' s ErrRange))
      else ParseUint s 64) \<and>
   (\<not> isDecimal s \<longrightarrow>
      ParseUint s 64 = (0, Some (NumError ''ParseUint'' s ErrSyntax)) \<or>
      ParseUint s 64 = (maxUint64, Some (NumError ''ParseUint'' s ErrRange)))"
proof (cases "isDecimal s")
  case True
  then have ne: "s \<noteq> []" and dig: "list_all isDigit s" by (simp_all add: isDecimal_def)
  from parseUintLoop_digits[OF dig, of maxUint64 0 s] True ne show ?thesis
    by (simp add: ParseUint_64 decimal_def)
next
  case False
  show ?thesis
  proof (cases "s = []")
    case True
    with False show ?thesis by (simp add: ParseUint_64)
  next
    case ne: False
    with False have "\<not> list_all isDigit s" by (simp add: isDecimal_def)
    from parseUintLoop_nondigit[OF this, of s maxUint64 0] False ne show ?thesis
      by (simp add: ParseUint_64)
  qed
qed

lemma ParseUint_ok:
  "ParseUint s 64 = (n, None) \<longleftrightarrow> isDecimal s \<and> decimal s = n \<and> n \<le> maxUint64"
  using ParseUint_cases[of s] by (cases "isDecimal s") (auto split: if_splits)


lemma ParseInt_64:
  assumes "s \<noteq> []"
  shows "ParseInt s 64 =
     (case ParseUint (if hd s = CHR ''+'' \<or> hd s = CHR ''-'' then tl s else s) 64 of
        (un, Some (NumError f n ErrSyntax)) \<Rightarrow> (0, Some (NumError ''ParseInt'' s ErrSyntax))
      | (un, r) \<Rightarrow>
          if hd s \<noteq> CHR ''-'' \<and> un \<ge> 2 ^ 63
            then (2 ^ 63 - 1, Some (NumError ''ParseInt'' s ErrRange))
          else if hd s = CHR ''-'' \<and> un > 2 ^ 63
            then (- (2 ^ 63), Some (NumError ''ParseInt'' s ErrRange))
          else (if hd s = CHR ''-'' then - int un else int un, None))"
  using assms
  by (simp add: ParseInt_def Let_def split: prod.splits option.splits error.splits numErr.splits)

lemma intLiteral_body:
  assumes "s \<noteq> []"
  shows "intLiteral s =
     (let body = (if hd s = CHR ''+'' \<or> hd s = CHR ''-'' then tl s else s) in
      if isDecimal body
      then Some (if hd s = CHR ''-'' then - int (decimal body) else int (decimal body))
      else None)"
  using assms by (cases s) (auto simp: intLiteral_def Let_def)

lemma ParseInt_cases:
  "ParseInt s 64 =
     (case intLiteral s of
        Some i \<Rightarrow>
          if - (2 ^ 63) \<le> i \<and> i < 2 ^ 63 then (i, None)
          else (if i < 0 then - (2 ^ 63) else 2 ^ 63 - 1, Some (NumError ''ParseInt'' s ErrRange))
      | None \<Rightarrow> ParseInt s 64) \<and>
   (intLiteral s = None \<longrightarrow>
      (\<exists>v c. ParseInt s 64 = (v, Some (NumError ''ParseInt'' s c))))"
proof (cases "s = []")
  case True
  then show ?thesis by (simp add: ParseInt_def intLiteral_def)
next
  case ne: False
  define body where "body = (if hd s = CHR ''+'' \<or> hd s = CHR ''-'' then tl s else s)"
  note pi = ParseInt_64[OF ne, folded body_def]
  note il = intLiteral_body[OF ne, unfolded Let_def, folded body_def]
  note pu = ParseUint_cases[of body]
  show ?thesis
  proof (cases "isDecimal body")
    case dec: True
    show ?thesis
    proof (cases "decimal body \<le> maxUint64")
      case True
      with pu dec have u: "ParseUint body 64 = (decimal body, None)" by simp
      show ?thesis
        unfolding pi il u using dec by (auto simp: maxUint64_def)
    next
      case False
      with pu dec have u: "ParseUint body 64 = (maxUint64, Some (NumError ''ParseUint'' body ErrRange))"
        by simp
      from False have big: "decimal body > 2 ^ 64 - 1" by (simp add: maxUint64_def)
      show ?thesis
        unfolding pi il u using dec big by (auto simp: maxUint64_def)
    qed
  next
    case False
    with pu consider
        "ParseUint body 64 = (0, Some (NumError ''ParseUint'' body ErrSyntax))"
      | "ParseUint body 64 = (maxUint64, Some (NumError ''ParseUint'' body ErrRange))"
      by blast
    then show ?thesis
    proof cases
      case 1
      show ?thesis unfolding pi il 1 using False by simp
    next
      case 2
      show ?thesis unfolding pi il 2 using False by (simp add: maxUint64_def)
    qed
  qed
qed

lemma ParseInt_ok:
  "ParseInt s 64 = (i, None) \<longleftrightarrow> intLiteral s = Some i \<and> - (2 ^ 63) \<le> i \<and> i < 2 ^ 63"
  using ParseInt_cases[of s] by (cases "intLiteral s") (auto split: if_splits)

lemma SetInt_fits:
  "- (2 ^ (intBits k - 1)) \<le> n \<Longrightarrow> n < 2 ^ (intBits k - 1) \<Longrightarrow> SetInt k n = n"
  by (simp add: SetInt_def signed_take_bit_int_eq_self)

lemma SetUint_fits: "n < 2 ^ uintBits k \<Longrightarrow> SetUint k n = n"
  by (simp add: SetUint_def take_bit_nat_eq_self)

lemma overlayField_bound:
  assumes "map_of tags tag = Some envVar" and "envVar \<noteq> []"
    and "Getenv env (pfx @ envVar) = envValue" and "envValue \<noteq> []"
  shows "overlayField L env pfx tag tags v =
     (case setFromEnv L envVar envValue v of Inl e \<Rightarrow> (v, Some e) | Inr v' \<Rightarrow> (v', None))"
  using assms by (simp add: overlayField_def)

lemma loadField_leaf:
  "(\<And>sub. v \<noteq> VStruct sub) \<Longrightarrow>
   loadField L env (Field name True tags v) pfx tag =
     (case overlayField L env pfx tag tags v of (v2, r) \<Rightarrow> (Field name True tags v2, r))"
  by (cases v) auto

text \<open>
  C4, as amended. Integer coercion: for every signed or unsigned integer field bound to
  a non-empty environment value, the mapper parses the value as base-10 at 64 bits,
  whatever the declared width of the field. When the value is a literal in the 64-bit
  range, the field is assigned the parsed value converted to the field's type, which is
  the parsed value itself whenever it fits the declared width, and no error is
  returned. For every other value the field is left as it was and the error returned is
  the parser's error wrapped with a text that ends in the name the field's annotation
  gives (the variable's name without the prefix).
\<close>

theorem integer_coercion:
  assumes "map_of tags tag = Some envVar" and "envVar \<noteq> []"
    and "Getenv env (pfx @ envVar) = envValue" and "envValue \<noteq> []"
  shows
   "(\<forall>n. intLiteral envValue = Some n \<and> - (2 ^ 63) \<le> n \<and> n < 2 ^ 63 \<longrightarrow>
       loadField L env (Field name True tags (VInt k i)) pfx tag =
         (Field name True tags (VInt k (SetInt k n)), None) \<and>
       (- (2 ^ (intBits k - 1)) \<le> n \<and> n < 2 ^ (intBits k - 1) \<longrightarrow> SetInt k n = n)) \<and>
    ((\<nexists>n. intLiteral envValue = Some n \<and> - (2 ^ 63) \<le> n \<and> n < 2 ^ 63) \<longrightarrow>
       (\<exists>c. loadField L env (Field name True tags (VInt k i)) pfx tag =
          (Field name True tags (VInt k i),
           Some (Wrapf (''invalid integer value for '' @ envVar) (NumError ''ParseInt'' envValue c))))) \<and>
    (isDecimal envValue \<and> decimal envValue < 2 ^ 64 \<longrightarrow>
       loadField L env (Field name True tags (VUint uk u)) pfx tag =
         (Field name True tags (VUint uk (SetUint uk (decimal envValue))), None) \<and>
       (decimal envValue < 2 ^ uintBits uk \<longrightarrow> SetUint uk (decimal envValue) = decimal envValue)) \<and>
    (\<not> (isDecimal envValue \<and> decimal envValue < 2 ^ 64) \<longrightarrow>
       (\<exists>c. loadField L env (Field name True tags (VUint uk u)) pfx tag =
          (Field name True tags (VUint uk u),
           Some (Wrapf (''invalid unsigned integer value for '' @ envVar)
                  (NumError ''ParseUint'' envValue c)))))"
proof -
  note ov = overlayField_bound[OF assms]
  have int_ok: "loadField L env (Field name True tags (VInt k i)) pfx tag =
         (Field name True tags (VInt k (SetInt k n)), None)"
    if "intLiteral envValue = Some n" "- (2 ^ 63) \<le> n" "n < 2 ^ 63" for n
  proof -
    from that have "ParseInt envValue 64 = (n, None)" by (simp add: ParseInt_ok)
    then show ?thesis by (simp add: loadField_leaf ov)
  qed
  have int_bad: "\<exists>c. loadField L env (Field name True tags (VInt k i)) pfx tag =
          (Field name True tags (VInt k i),
           Some (Wrapf (''invalid integer value for '' @ envVar) (NumError ''ParseInt'' envValue c)))"
    if "\<nexists>n. intLiteral envValue = Some n \<and> - (2 ^ 63) \<le> n \<and> n < 2 ^ 63"
  proof -
    from that ParseInt_cases[of envValue]
    obtain v c where "ParseInt envValue 64 = (v, Some (NumError ''ParseInt'' envValue c))"
      by (cases "intLiteral envValue") (auto split: if_splits)
    then show ?thesis by (simp add: loadField_leaf ov)
  qed
  have uint_ok: "loadField L env (Field name True tags (VUint uk u)) pfx tag =
         (Field name True tags (VUint uk (SetUint uk (decimal envValue))), None)"
    if "isDecimal envValue" "decimal envValue < 2 ^ 64"
  proof -
    from that have "ParseUint envValue 64 = (decimal envValue, None)"
      by (simp add: ParseUint_ok maxUint64_def)
    then show ?thesis by (simp add: loadField_leaf ov)
  qed
  have uint_bad: "\<exists>c. loadField L env (Field name True tags (VUint uk u)) pfx tag =
          (Field name True tags (VUint uk u),
           Some (Wrapf (''invalid unsigned integer value for '' @ envVar)
                  (NumError ''ParseUint'' envValue c)))"
    if "\<not> (isDecimal envValue \<and> decimal envValue < 2 ^ 64)"
  proof -
    from that ParseUint_cases[of envValue]
    obtain v c where "ParseUint envValue 64 = (v, Some (NumError ''ParseUint'' envValue c))"
      by (cases "isDecimal envValue") (auto simp: maxUint64_def split: if_splits)
    then show ?thesis by (simp add: loadField_leaf ov)
  qed
  from int_ok int_bad uint_ok uint_bad SetInt_fits SetUint_fits show ?thesis
    by blast
qed

text \<open>
  The claim as stated fails on fields narrower than 64 bits: "300" is out of range for
  an \<^verbatim>\<open>int8\<close> and "256" for a \<^verbatim>\<open>uint8\<close> (parsing at the declared width is a range
  error), yet the mapper returns no error and stores 44 and 0.
\<close>

theorem integer_coercion_counterexample:
  "loadField exampleLibrary [''LEVEL'' \<mapsto> ''300'']
     (Field ''Level'' True [(''env'', ''LEVEL'')] (VInt KindInt8 1)) [] ''env'' =
     (Field ''Level'' True [(''env'', ''LEVEL'')] (VInt KindInt8 44), None) \<and>
   ParseInt ''300'' (intBits KindInt8) = (127, Some (NumError ''ParseInt'' ''300'' ErrRange)) \<and>
   loadField exampleLibrary [''COUNT'' \<mapsto> ''256'']
     (Field ''Count'' True [(''env'', ''COUNT'')] (VUint KindUint8 1)) [] ''env'' =
     (Field ''Count'' True [(''env'', ''COUNT'')] (VUint KindUint8 0), None) \<and>
   ParseUint ''256'' (uintBits KindUint8) = (255, Some (NumError ''ParseUint'' ''256'' ErrRange))"
  by (simp add: overlayField_def Getenv_def ParseInt_def ParseUint_def isDigit_def digitVal_def
      maxUint64_def SetInt_def SetUint_def Let_def)

theorem integer_coercion_witness:
  "loadField exampleLibrary [''TEST_PORT'' \<mapsto> ''7070'']
     (Field ''Port'' True [(''json'', ''port''), (''env'', ''PORT'')] (VInt KindInt 8080)) ''TEST_'' ''env'' =
     (Field ''Port'' True [(''json'', ''port''), (''env'', ''PORT'')] (VInt KindInt 7070), None) \<and>
   (\<exists>c. loadField exampleLibrary [''TEST_PORT'' \<mapsto> ''not-an-int'']
     (Field ''Port'' True [(''json'', ''port''), (''env'', ''PORT'')] (VInt KindInt 8080)) ''TEST_'' ''env'' =
     (Field ''Port'' True [(''json'', ''port''), (''env'', ''PORT'')] (VInt KindInt 8080),
      Some (Wrapf ''invalid integer value for PORT'' (NumError ''ParseInt'' ''not-an-int'' c)))) \<and>
   (\<exists>c. loadField exampleLibrary [''TEST_MAX_CONNS'' \<mapsto> ''-1'']
     (Field ''MaxConns'' True [(''env'', ''MAX_CONNS'')] (VUint KindUint 100)) ''TEST_'' ''env'' =
     (Field ''MaxConns'' True [(''env'', ''MAX_CONNS'')] (VUint KindUint 100),
      Some (Wrapf ''invalid unsigned integer value for MAX_CONNS'' (NumError ''ParseUint'' ''-1'' c))))"
proof -
  let ?tags = "[(''json'', ''port''), (''env'', ''PORT'')]"
  have t: "map_of ?tags ''env'' = Some ''PORT''" and ne: "''PORT'' \<noteq> []" by simp_all
  have g1: "Getenv [''TEST_PORT'' \<mapsto> ''7070''] (''TEST_'' @ ''PORT'') = ''7070''"
    and g2: "Getenv [''TEST_PORT'' \<mapsto> ''not-an-int''] (''TEST_'' @ ''PORT'') = ''not-an-int''"
    by (simp_all add: Getenv_def)
  have l1: "intLiteral ''7070'' = Some 7070"
    by (simp add: intLiteral_def isDecimal_def decimal_def isDigit_def digitVal_def)
  have l2: "intLiteral ''not-an-int'' = None"
    by (simp add: intLiteral_def isDecimal_def decimal_def isDigit_def digitVal_def)
  have s: "SetInt KindInt 7070 = 7070" by (simp add: SetInt_def)
  have a: "loadField exampleLibrary [''TEST_PORT'' \<mapsto> ''7070'']
     (Field ''Port'' True ?tags (VInt KindInt 8080)) ''TEST_'' ''env'' =
     (Field ''Port'' True ?tags (VInt KindInt 7070), None)"
    using integer_coercion[OF t ne g1, of exampleLibrary "''Port''" KindInt 8080, THEN conjunct1,
        rule_format, of 7070] l1 s
    by simp
  have b: "\<exists>c. loadField exampleLibrary [''TEST_PORT'' \<mapsto> ''not-an-int'']
     (Field ''Port'' True ?tags (VInt KindInt 8080)) ''TEST_'' ''env'' =
     (Field ''Port'' True ?tags (VInt KindInt 8080),
      Some (Wrapf ''invalid integer value for PORT'' (NumError ''ParseInt'' ''not-an-int'' c)))"
    using integer_coercion[OF t ne g2, of exampleLibrary "''Port''" KindInt 8080, THEN conjunct2,
        THEN conjunct1] l2
    by simp
  have t3: "map_of [(''env'', ''MAX_CONNS'')] ''env'' = Some ''MAX_CONNS''"
    and ne3: "''MAX_CONNS'' \<noteq> []" by simp_all
  have g3: "Getenv [''TEST_MAX_CONNS'' \<mapsto> ''-1''] (''TEST_'' @ ''MAX_CONNS'') = ''-1''"
    by (simp add: Getenv_def)
  have l3: "\<not> isDecimal ''-1''" by (simp add: isDecimal_def isDigit_def)
  have c: "\<exists>c. loadField exampleLibrary [''TEST_MAX_CONNS'' \<mapsto> ''-1'']
     (Field ''MaxConns'' True [(''env'', ''MAX_CONNS'')] (VUint KindUint 100)) ''TEST_'' ''env'' =
     (Field ''MaxConns'' True [(''env'', ''MAX_CONNS'')] (VUint KindUint 100),
      Some (Wrapf ''invalid unsigned integer value for MAX_CONNS'' (NumError ''ParseUint'' ''-1'' c)))"
    using integer_coercion[OF t3 ne3 g3, of exampleLibrary "''MaxConns''" _ _ KindUint 100,
        THEN conjunct2, THEN conjunct2, THEN conjunct2] l3
    by simp
  from a b c show ?thesis by blast
qed

text \<open>A run of the mapper leaves each field as it was or as one pass of the loop body leaves it.\<close>

lemma mapper_pointwise:
  "loadEnvToStruct L env fs pfx tag = (fs', r) \<Longrightarrow>
     length fs' = length fs \<and>
     (\<forall>i < length fs. fs' ! i = fs ! i \<or> fs' ! i = fst (loadField L env (fs ! i) pfx tag))"
proof (induction fs arbitrary: fs' r)
  case Nil
  then show ?case by simp
next
  case (Cons a fs)
  obtain a' ra where a: "loadField L env a pfx tag = (a', ra)"
    by (cases "loadField L env a pfx tag") auto
  show ?case
  proof (cases ra)
    case (Some e)
    with Cons.prems a have "fs' = a' # fs" by simp
    with a show ?thesis by (auto simp: nth_Cons split: nat.splits)
  next
    case None
    obtain t rt where t: "loadEnvToStruct L env fs pfx tag = (t, rt)"
      by (cases "loadEnvToStruct L env fs pfx tag") auto
    with Cons.prems a None have fs': "fs' = a' # t" by simp
    from Cons.IH[OF t] a fs' show ?thesis
      by (auto simp: nth_Cons split: nat.splits)
  qed
qed

text \<open>
  C5, as amended. Do not clobber with emptiness: for every annotated field whose
  environment variable is absent or bound to the empty string, the field's own overlay
  step changes nothing and returns no error. If the field is not a nested record, the
  mapper leaves it completely untouched: one pass of the loop returns the field as it
  was, and after a run of the mapper over a record, with or without an error, the field
  at that position is the field as it was. If the field is a nested record, its own
  annotation has no effect, and its contents are what the mapper makes of the nested
  record.
\<close>

theorem no_clobber_with_emptiness:
  assumes "map_of tags tag = Some envVar"
    and "env (pfx @ envVar) = None \<or> env (pfx @ envVar) = Some []"
  shows
   "overlayField L env pfx tag tags v = (v, None) \<and>
    ((\<forall>sub. v \<noteq> VStruct sub) \<longrightarrow>
       loadField L env (Field name ex tags v) pfx tag = (Field name ex tags v, None) \<and>
       (\<forall>fs fs' r i. loadEnvToStruct L env fs pfx tag = (fs', r) \<and> i < length fs \<and>
           fs ! i = Field name ex tags v \<longrightarrow> fs' ! i = fs ! i)) \<and>
    (\<forall>sub. v = VStruct sub \<longrightarrow>
       loadField L env (Field name True tags v) pfx tag =
         (case loadEnvToStruct L env sub pfx tag of
            (sub', r) \<Rightarrow>
              (Field name True tags (VStruct sub'),
               map_option (Wrapf (''error loading sub config field '' @ name)) r)))"
proof -
  have ov: "overlayField L env pfx tag tags v = (v, None)" for v :: "'a gval"
    using assms by (auto simp: overlayField_def Getenv_def)
  have leaf: "loadField L env (Field name ex tags v) pfx tag = (Field name ex tags v, None)"
    if "\<forall>sub. v \<noteq> VStruct sub"
    using that by (cases v) (simp_all add: ov)
  have pos: "fs' ! i = fs ! i"
    if "\<forall>sub. v \<noteq> VStruct sub" "loadEnvToStruct L env fs pfx tag = (fs', r)" "i < length fs"
      "fs ! i = Field name ex tags v" for fs fs' r i
  proof -
    have d: "fs' ! i = fs ! i \<or> fs' ! i = fst (loadField L env (fs ! i) pfx tag)"
      using mapper_pointwise[OF that(2)] that(3) by blast
    have "fst (loadField L env (fs ! i) pfx tag) = fs ! i"
      unfolding that(4) leaf[OF that(1)] by simp
    with d show ?thesis by simp
  qed
  have nested: "loadField L env (Field name True tags v) pfx tag =
         (case loadEnvToStruct L env sub pfx tag of
            (sub', r) \<Rightarrow>
              (Field name True tags (VStruct sub'),
               map_option (Wrapf (''error loading sub config field '' @ name)) r))"
    if "v = VStruct sub" for sub
  proof -
    obtain sub' r where s: "loadEnvToStruct L env sub pfx tag = (sub', r)"
      by (cases "loadEnvToStruct L env sub pfx tag") auto
    show ?thesis
      unfolding that by (cases r) (simp_all add: s ov)
  qed
  show ?thesis
  proof (intro conjI)
    show "overlayField L env pfx tag tags v = (v, None)" by (rule ov)
  next
    show "(\<forall>sub. v \<noteq> VStruct sub) \<longrightarrow>
       loadField L env (Field name ex tags v) pfx tag = (Field name ex tags v, None) \<and>
       (\<forall>fs fs' r i. loadEnvToStruct L env fs pfx tag = (fs', r) \<and> i < length fs \<and>
           fs ! i = Field name ex tags v \<longrightarrow> fs' ! i = fs ! i)"
    proof (intro impI conjI allI)
      assume a: "\<forall>sub. v \<noteq> VStruct sub"
      show "loadField L env (Field name ex tags v) pfx tag = (Field name ex tags v, None)"
        by (rule leaf[OF a])
    next
      fix fs fs' r i
      assume a: "\<forall>sub. v \<noteq> VStruct sub"
        and b: "loadEnvToStruct L env fs pfx tag = (fs', r) \<and> i < length fs \<and>
           fs ! i = Field name ex tags v"
      from b have b1: "loadEnvToStruct L env fs pfx tag = (fs', r)" and b2: "i < length fs"
        and b3: "fs ! i = Field name ex tags v" by simp_all
      show "fs' ! i = fs ! i" by (rule pos[OF a b1 b2 b3])
    qed
  next
    show "\<forall>sub. v = VStruct sub \<longrightarrow>
       loadField L env (Field name True tags v) pfx tag =
         (case loadEnvToStruct L env sub pfx tag of
            (sub', r) \<Rightarrow>
              (Field name True tags (VStruct sub'),
               map_option (Wrapf (''error loading sub config field '' @ name)) r))"
      by (intro allI impI) (rule nested)
  qed
qed

text \<open>
  The claim as stated fails for an annotated field that is a nested record: the
  variable \<^verbatim>\<open>NESTED\<close> of the field is absent, and the field is changed all the same,
  because the recursion into the record runs before the field's own annotation is looked
  up and \<^verbatim>\<open>VALUE\<close> is set.
\<close>

theorem no_clobber_counterexample:
  "map_of (ftags (nestedConfig ! 1)) ''env'' = Some ''NESTED'' \<and>
   [''VALUE'' \<mapsto> ''nested-value''] ([] @ ''NESTED'') = None \<and>
   loadField exampleLibrary [''VALUE'' \<mapsto> ''nested-value''] (nestedConfig ! 1) [] ''env'' =
     (Field ''Nested'' True [(''env'', ''NESTED'')]
        (VStruct [Field ''Value'' True [(''env'', ''VALUE'')] (VString ''nested-value''),
                  Field ''Limit'' True [(''env'', ''LIMIT'')] (VInt KindInt 10)]), None) \<and>
   fst (loadField exampleLibrary [''VALUE'' \<mapsto> ''nested-value''] (nestedConfig ! 1) [] ''env'') \<noteq>
     nestedConfig ! 1"
  by (simp add: nestedConfig_def overlayField_def Getenv_def)

theorem no_clobber_witness:
  "loadField exampleLibrary [''TEST_NAME'' \<mapsto> [], ''TEST_PORT'' \<mapsto> ''7070'']
     (Field ''Name'' True [(''json'', ''name''), (''env'', ''NAME'')] (VString ''test-app''))
     ''TEST_'' ''env'' =
     (Field ''Name'' True [(''json'', ''name''), (''env'', ''NAME'')] (VString ''test-app''), None) \<and>
   fst (loadEnvToStruct exampleLibrary [''TEST_NAME'' \<mapsto> [], ''TEST_PORT'' \<mapsto> ''7070'']
          testConfig ''TEST_'' ''env'') ! 0 = testConfig ! 0 \<and>
   fst (loadEnvToStruct exampleLibrary [''TEST_NAME'' \<mapsto> [], ''TEST_PORT'' \<mapsto> ''7070'']
          testConfig ''TEST_'' ''env'') ! 4 = testConfig ! 4"
proof -
  let ?env = "[''TEST_NAME'' \<mapsto> [], ''TEST_PORT'' \<mapsto> ''7070'']"
  let ?r = "loadEnvToStruct exampleLibrary ?env testConfig ''TEST_'' ''env''"
  have f0: "testConfig ! 0 =
      Field ''Name'' True [(''json'', ''name''), (''env'', ''NAME'')] (VString ''test-app'')"
    and f4: "testConfig ! 4 =
      Field ''Tags'' True [(''json'', ''tags''), (''env'', ''TAGS'')] (VStrings [''default''])"
    and len: "0 < length testConfig" "4 < length testConfig"
    by (simp_all add: testConfig_def)
  have t0: "map_of [(''json'', ''name''), (''env'', ''NAME'')] ''env'' = Some ''NAME''"
    and t4: "map_of [(''json'', ''tags''), (''env'', ''TAGS'')] ''env'' = Some ''TAGS''"
    by simp_all
  have e0: "?env (''TEST_'' @ ''NAME'') = None \<or> ?env (''TEST_'' @ ''NAME'') = Some []"
    and e4: "?env (''TEST_'' @ ''TAGS'') = None \<or> ?env (''TEST_'' @ ''TAGS'') = Some []"
    by simp_all
  have r: "?r = (fst ?r, snd ?r)" by simp
  have s0: "\<And>sub. VString ''test-app'' \<noteq> (VStruct sub :: unit gval)"
    and s4: "\<And>sub. VStrings [''default''] \<noteq> (VStruct sub :: unit gval)"
    by simp_all
  note n0 = no_clobber_with_emptiness[where env = ?env and pfx = "''TEST_''" and envVar = "''NAME''"
      and L = exampleLibrary and v = "VString ''test-app''" and name = "''Name''" and ex = True,
      OF t0 e0, THEN conjunct2, THEN conjunct1, rule_format, OF s0]
  note n4 = no_clobber_with_emptiness[where env = ?env and pfx = "''TEST_''" and envVar = "''TAGS''"
      and L = exampleLibrary and v = "VStrings [''default'']" and name = "''Tags''" and ex = True,
      OF t4 e4, THEN conjunct2, THEN conjunct1, rule_format, OF s4]
  have a: "loadField exampleLibrary ?env
     (Field ''Name'' True [(''json'', ''name''), (''env'', ''NAME'')] (VString ''test-app''))
     ''TEST_'' ''env'' =
     (Field ''Name'' True [(''json'', ''name''), (''env'', ''NAME'')] (VString ''test-app''), None)"
    by (rule n0[THEN conjunct1])
  have b: "fst ?r ! 0 = testConfig ! 0"
    by (rule n0[THEN conjunct2, rule_format, of testConfig "fst ?r" "snd ?r" 0])
       (intro conjI r len(1) f0)
  have c: "fst ?r ! 4 = testConfig ! 4"
    by (rule n4[THEN conjunct2, rule_format, of testConfig "fst ?r" "snd ?r" 4])
       (intro conjI r len(2) f4)
  show ?thesis by (intro conjI a b c)
qed

subsection \<open>The mapper: error propagation\<close>

lemma overlayField_struct [simp]:
  "overlayField L env pfx tag tags (VStruct sub) = (VStruct sub, None)"
  by (simp add: overlayField_def Let_def split: option.splits)

lemma mapper_error_shape:
  "snd (loadEnvToStruct L env fs pfx tag) =
     map_option (\<lambda>(path, e). wrapPath path e) (firstFailure L env pfx tag fs)"
  "snd (loadField L env f pfx tag) =
     map_option (\<lambda>(path, e). wrapPath path e) (fieldFailure L env pfx tag f)"
proof (induction L env fs pfx tag and L env f pfx tag rule: loadEnvToStruct_loadField.induct)
  case (1 L env pfx tag)
  then show ?case by simp
next
  case (2 L env f fs pfx tag)
  then show ?case
    by (auto split: prod.splits option.splits)
next
  case (3 L env name ex tags v pfx tag)
  show ?case
  proof (cases v)
    case (VStruct sub)
    with 3 show ?thesis
      by (auto split: prod.splits option.splits)
  qed (auto split: prod.splits option.splits)
qed

lemma abort_decomposition:
  "loadEnvToStruct L env fs pfx tag = (fs', Some e) \<Longrightarrow>
     \<exists>pre f post pre' f'. fs = pre @ f # post \<and> fs' = pre' @ f' # post \<and>
        loadEnvToStruct L env pre pfx tag = (pre', None) \<and>
        loadField L env f pfx tag = (f', Some e)"
proof (induction fs arbitrary: fs')
  case Nil
  then show ?case by simp
next
  case (Cons a fs)
  obtain a' r where a: "loadField L env a pfx tag = (a', r)"
    by (cases "loadField L env a pfx tag") auto
  show ?case
  proof (cases r)
    case (Some e')
    with Cons.prems a have "fs' = a' # fs" "e' = e" by auto
    with a Some have "a # fs = [] @ a # fs \<and> fs' = [] @ a' # fs \<and>
        loadEnvToStruct L env [] pfx tag = ([], None) \<and> loadField L env a pfx tag = (a', Some e)"
      by simp
    then show ?thesis by blast
  next
    case None
    obtain t where t: "loadEnvToStruct L env fs pfx tag = (t, Some e)" and fs': "fs' = a' # t"
      using Cons.prems a None by (auto split: prod.splits)
    from Cons.IH[OF t] obtain pre f post pre' f' where
      d: "fs = pre @ f # post" "t = pre' @ f' # post"
         "loadEnvToStruct L env pre pfx tag = (pre', None)" "loadField L env f pfx tag = (f', Some e)"
      by blast
    have "a # fs = (a # pre) @ f # post \<and> fs' = (a' # pre') @ f' # post \<and>
        loadEnvToStruct L env (a # pre) pfx tag = (a' # pre', None) \<and>
        loadField L env f pfx tag = (f', Some e)"
      using d fs' a None by simp
    then show ?thesis by blast
  qed
qed

lemma setFromEnv_error:
  "setFromEnv L envVar envValue v = Inl e \<Longrightarrow> \<exists>c. e = Wrapf (coercionText v @ envVar) c"
  by (cases v) (auto split: prod.splits option.splits)

lemma overlayField_error:
  assumes "overlayField L env pfx tag tags v = (v', Some e)"
  shows "v' = v \<and> (\<exists>envVar c. map_of tags tag = Some envVar \<and>
            e = Wrapf (coercionText v @ envVar) c)"
proof -
  from assms obtain envVar where t: "map_of tags tag = Some envVar"
    by (cases "map_of tags tag") (auto simp: overlayField_def)
  from assms t have s: "setFromEnv L envVar (Getenv env (pfx @ envVar)) v = Inl e" and v: "v' = v"
    by (auto simp: overlayField_def Let_def split: if_splits sum.splits)
  from setFromEnv_error[OF s] obtain c where "e = Wrapf (coercionText v @ envVar) c" ..
  with t v show ?thesis by simp
qed

lemma failing_field:
  assumes "loadField L env f pfx tag = (f', Some e)"
  shows "(f' = f \<and> (\<forall>sub. fval f \<noteq> VStruct sub) \<and>
          (\<exists>envVar c. map_of (ftags f) tag = Some envVar \<and>
              e = Wrapf (coercionText (fval f) @ envVar) c)) \<or>
     (\<exists>sub sub' e0. fval f = VStruct sub \<and>
        f' = Field (fname f) (exported f) (ftags f) (VStruct sub') \<and>
        loadEnvToStruct L env sub pfx tag = (sub', Some e0) \<and>
        e = Wrapf (''error loading sub config field '' @ fname f) e0)"
proof (cases f)
  case (Field name ex tags v)
  from assms Field have ex: "ex" by (cases ex) auto
  show ?thesis
  proof (cases "\<exists>sub. v = VStruct sub")
    case True
    then obtain sub where v: "v = VStruct sub" by blast
    obtain sub' r where s: "loadEnvToStruct L env sub pfx tag = (sub', r)"
      by (cases "loadEnvToStruct L env sub pfx tag") auto
    from assms Field ex v s obtain e0 where "r = Some e0"
      "f' = Field name ex tags (VStruct sub')"
      "e = Wrapf (''error loading sub config field '' @ name) e0"
      by (cases r) auto
    with Field v s show ?thesis by simp
  next
    case False
    then have nv: "\<And>sub. v \<noteq> VStruct sub" by blast
    obtain v2 r where o: "overlayField L env pfx tag tags v = (v2, r)"
      by (cases "overlayField L env pfx tag tags v") auto
    have "loadField L env (Field name True tags v) pfx tag = (Field name True tags v2, r)"
      unfolding loadField_leaf[OF nv] o by simp
    with assms Field ex have "r = Some e" "f' = Field name ex tags v2"
      by simp_all
    with overlayField_error[of L env pfx tag tags v v2 e] o Field nv show ?thesis
      by simp
  qed
qed

text \<open>
  C7. Coercion-error propagation: the error the mapper returns is the coercion error of
  the first failing field of the depth-first walk in declaration order, wrapped once
  for each record the walk is nested in at that field, each time with the name of the
  record field entered at that level (outermost first), and there is no error when no
  field fails. When the mapper returns an error it has stopped at that field: the
  fields before it have been processed without error, the fields after it are as they
  were, and the failing field is either a field that is not a record, left as it was,
  whose error is the parser's error wrapped with the text for its kind and the name of
  its annotation, or a nested record in which the same holds one level down.
\<close>

theorem coercion_error_propagation:
  "snd (loadEnvToStruct L env fs pfx tag) =
     map_option (\<lambda>(path, e). wrapPath path e) (firstFailure L env pfx tag fs) \<and>
   (\<forall>fs' e. loadEnvToStruct L env fs pfx tag = (fs', Some e) \<longrightarrow>
      (\<exists>pre f post pre' f'.
          fs = pre @ f # post \<and> fs' = pre' @ f' # post \<and>
          loadEnvToStruct L env pre pfx tag = (pre', None) \<and>
          loadField L env f pfx tag = (f', Some e) \<and>
          ((f' = f \<and> (\<forall>sub. fval f \<noteq> VStruct sub) \<and>
            (\<exists>envVar c. map_of (ftags f) tag = Some envVar \<and>
                e = Wrapf (coercionText (fval f) @ envVar) c)) \<or>
           (\<exists>sub sub' e0. fval f = VStruct sub \<and>
              f' = Field (fname f) (exported f) (ftags f) (VStruct sub') \<and>
              loadEnvToStruct L env sub pfx tag = (sub', Some e0) \<and>
              e = Wrapf (''error loading sub config field '' @ fname f) e0))))"
proof (intro conjI allI impI)
  show "snd (loadEnvToStruct L env fs pfx tag) =
     map_option (\<lambda>(path, e). wrapPath path e) (firstFailure L env pfx tag fs)"
    by (rule mapper_error_shape(1))
next
  fix fs' e
  assume a: "loadEnvToStruct L env fs pfx tag = (fs', Some e)"
  from abort_decomposition[OF a] obtain pre f post pre' f' where
    d: "fs = pre @ f # post" "fs' = pre' @ f' # post"
       "loadEnvToStruct L env pre pfx tag = (pre', None)" "loadField L env f pfx tag = (f', Some e)"
    by blast
  note ff = failing_field[OF d(4)]
  show "\<exists>pre f post pre' f'.
          fs = pre @ f # post \<and> fs' = pre' @ f' # post \<and>
          loadEnvToStruct L env pre pfx tag = (pre', None) \<and>
          loadField L env f pfx tag = (f', Some e) \<and>
          ((f' = f \<and> (\<forall>sub. fval f \<noteq> VStruct sub) \<and>
            (\<exists>envVar c. map_of (ftags f) tag = Some envVar \<and>
                e = Wrapf (coercionText (fval f) @ envVar) c)) \<or>
           (\<exists>sub sub' e0. fval f = VStruct sub \<and>
              f' = Field (fname f) (exported f) (ftags f) (VStruct sub') \<and>
              loadEnvToStruct L env sub pfx tag = (sub', Some e0) \<and>
              e = Wrapf (''error loading sub config field '' @ fname f) e0))"
    apply (rule exI[of _ pre], rule exI[of _ f], rule exI[of _ post], rule exI[of _ pre'],
        rule exI[of _ f'])
    apply (intro conjI d ff)
    done
qed

lemma deep_failure:
  "firstFailure exampleLibrary deepEnv [] ''env'' deepConfig =
     Some ([''Outer'', ''Inner''],
           Wrapf ''invalid integer value for LIMIT'' (NumError ''ParseInt'' ''oops'' ErrSyntax))"
  by (simp add: deepConfig_def deepEnv_def overlayField_def Getenv_def ParseInt_def ParseUint_def
      isDigit_def Let_def)

lemma deep_result:
  "fst (loadEnvToStruct exampleLibrary deepEnv deepConfig [] ''env'') =
     [Field ''Name'' True [(''env'', ''NAME'')] (VString ''n''),
      Field ''Outer'' True []
        (VStruct
          [Field ''Inner'' True []
             (VStruct
               [Field ''Value'' True [(''env'', ''VALUE'')] (VString ''v''),
                Field ''Limit'' True [(''env'', ''LIMIT'')] (VInt KindInt 10),
                Field ''After'' True [(''env'', ''AFTER'')] (VString ''unset'')]),
           Field ''Sibling'' True [(''env'', ''SIBLING'')] (VString ''unset'')]),
      Field ''Tags'' True [(''env'', ''TAGS'')] (VStrings [''default''])]"
  by (simp add: deepConfig_def deepEnv_def overlayField_def Getenv_def ParseInt_def ParseUint_def
      isDigit_def Let_def)

theorem coercion_error_propagation_witness:
  "snd (loadEnvToStruct exampleLibrary deepEnv deepConfig [] ''env'') =
     Some (Wrapf ''error loading sub config field Outer''
            (Wrapf ''error loading sub config field Inner''
              (Wrapf ''invalid integer value for LIMIT''
                (NumError ''ParseInt'' ''oops'' ErrSyntax)))) \<and>
   fst (loadEnvToStruct exampleLibrary deepEnv deepConfig [] ''env'') ! 2 = deepConfig ! 2"
proof -
  have "snd (loadEnvToStruct exampleLibrary deepEnv deepConfig [] ''env'') =
     Some (Wrapf ''error loading sub config field Outer''
            (Wrapf ''error loading sub config field Inner''
              (Wrapf ''invalid integer value for LIMIT''
                (NumError ''ParseInt'' ''oops'' ErrSyntax))))"
    unfolding coercion_error_propagation[of exampleLibrary deepEnv deepConfig "[]" "''env''",
        THEN conjunct1] deep_failure
    by simp
  moreover have "fst (loadEnvToStruct exampleLibrary deepEnv deepConfig [] ''env'') ! 2 =
      deepConfig ! 2"
    unfolding deep_result by (simp add: deepConfig_def)
  ultimately show ?thesis by (intro conjI)
qed

subsection \<open>The mapper: string lists\<close>

lemma Split_nonempty: "Split s sep \<noteq> []"
  by (induction s) (auto split: list.splits)

lemma Split_join: "concat (map ((#) sep) (Split s sep)) = sep # s"
proof (induction s)
  case Nil
  show ?case by simp
next
  case (Cons c cs)
  obtain p ps where sp: "Split cs sep = p # ps"
    using Split_nonempty[of cs sep] by (cases "Split cs sep") auto
  with Cons show ?case by simp
qed

lemma Split_no_sep: "p \<in> set (Split s sep) \<Longrightarrow> sep \<notin> set p"
proof (induction s arbitrary: p)
  case Nil
  then show ?case by simp
next
  case (Cons c cs)
  obtain q qs where sp: "Split cs sep = q # qs"
    using Split_nonempty[of cs sep] by (cases "Split cs sep") auto
  from Cons.IH[of q] Cons.IH sp Cons.prems show ?case
    by (auto split: if_splits)
qed

lemma length_Split: "length (Split s sep) = Suc (count_list s sep)"
proof (induction s)
  case Nil
  show ?case by simp
next
  case (Cons c cs)
  obtain q qs where sp: "Split cs sep = q # qs"
    using Split_nonempty[of cs sep] by (cases "Split cs sep") auto
  with Cons show ?case by auto
qed

lemma spaceRunes_nonempty: "q \<in> set spaceRunes \<Longrightarrow> q \<noteq> []"
  by (auto simp: spaceRunes_def)

lemma leadingSpace_0_iff:
  "leadingSpace s = 0 \<longleftrightarrow> (\<forall>q \<in> set spaceRunes. take (length q) s \<noteq> q)"
proof (cases "filter (\<lambda>q. take (length q) s = q) spaceRunes")
  case Nil
  then show ?thesis by (simp add: leadingSpace_def filter_empty_conv)
next
  case (Cons q qs)
  then have "q \<in> set (filter (\<lambda>q. take (length q) s = q) spaceRunes)" by simp
  then have q: "q \<in> set spaceRunes" "take (length q) s = q" by simp_all
  with Cons spaceRunes_nonempty[OF q(1)] show ?thesis
    by (auto simp: leadingSpace_def)
qed

lemma leadingSpace_pos:
  assumes "leadingSpace s \<noteq> 0"
  shows "\<exists>q \<in> set spaceRunes. s = q @ drop (leadingSpace s) s"
proof (cases "filter (\<lambda>q. take (length q) s = q) spaceRunes")
  case Nil
  with assms show ?thesis by (simp add: leadingSpace_def)
next
  case (Cons q qs)
  then have "q \<in> set (filter (\<lambda>q. take (length q) s = q) spaceRunes)" by simp
  then have q: "q \<in> set spaceRunes" "take (length q) s = q" by simp_all
  from Cons have l: "leadingSpace s = length q" by (simp add: leadingSpace_def)
  have "s = take (length q) s @ drop (length q) s" by simp
  with q l show ?thesis by metis
qed

lemma trailingSpace_0_iff:
  "trailingSpace s = 0 \<longleftrightarrow> (\<forall>q \<in> set spaceRunes. drop (length s - length q) s \<noteq> q)"
proof (cases "filter (\<lambda>q. drop (length s - length q) s = q) spaceRunes")
  case Nil
  then show ?thesis by (simp add: trailingSpace_def filter_empty_conv)
next
  case (Cons q qs)
  then have "q \<in> set (filter (\<lambda>q. drop (length s - length q) s = q) spaceRunes)" by simp
  then have q: "q \<in> set spaceRunes" "drop (length s - length q) s = q" by simp_all
  with Cons spaceRunes_nonempty[OF q(1)] show ?thesis
    by (auto simp: trailingSpace_def)
qed

lemma trailingSpace_pos:
  assumes "trailingSpace s \<noteq> 0"
  shows "\<exists>q \<in> set spaceRunes. s = take (length s - trailingSpace s) s @ q"
proof (cases "filter (\<lambda>q. drop (length s - length q) s = q) spaceRunes")
  case Nil
  with assms show ?thesis by (simp add: trailingSpace_def)
next
  case (Cons q qs)
  then have "q \<in> set (filter (\<lambda>q. drop (length s - length q) s = q) spaceRunes)" by simp
  then have q: "q \<in> set spaceRunes" "drop (length s - length q) s = q" by simp_all
  from Cons have l: "trailingSpace s = length q" by (simp add: trailingSpace_def)
  have "s = take (length s - length q) s @ drop (length s - length q) s" by simp
  with q l show ?thesis by metis
qed

lemma TrimLeftSpace_spec:
  "\<exists>ls. set ls \<subseteq> set spaceRunes \<and> s = concat ls @ TrimLeftSpace s \<and>
        leadingSpace (TrimLeftSpace s) = 0"
proof (induction s rule: TrimLeftSpace.induct)
  case (1 s)
  show ?case
  proof (cases "leadingSpace s = 0")
    case True
    then have "TrimLeftSpace s = s" by (simp add: TrimLeftSpace.simps)
    with True have "set [] \<subseteq> set spaceRunes \<and> s = concat [] @ TrimLeftSpace s \<and>
        leadingSpace (TrimLeftSpace s) = 0" by simp
    then show ?thesis by blast
  next
    case False
    let ?r = "drop (leadingSpace s) s"
    from False have t: "TrimLeftSpace s = TrimLeftSpace ?r"
      by (subst TrimLeftSpace.simps) simp
    from leadingSpace_pos[OF False] obtain q where q: "q \<in> set spaceRunes" "s = q @ ?r" by blast
    from 1[OF False] obtain ls where ls: "set ls \<subseteq> set spaceRunes"
      "?r = concat ls @ TrimLeftSpace ?r" "leadingSpace (TrimLeftSpace ?r) = 0" by blast
    have "s = q @ concat ls @ TrimLeftSpace ?r" using q(2) ls(2) by metis
    then have "set (q # ls) \<subseteq> set spaceRunes \<and> s = concat (q # ls) @ TrimLeftSpace s \<and>
        leadingSpace (TrimLeftSpace s) = 0"
      using q(1) ls(1,3) t by simp
    then show ?thesis by blast
  qed
qed

lemma TrimRightSpace_spec:
  "\<exists>rs. set rs \<subseteq> set spaceRunes \<and> s = TrimRightSpace s @ concat rs \<and>
        trailingSpace (TrimRightSpace s) = 0"
proof (induction s rule: TrimRightSpace.induct)
  case (1 s)
  show ?case
  proof (cases "trailingSpace s = 0")
    case True
    then have "TrimRightSpace s = s" by (simp add: TrimRightSpace.simps)
    with True have "set [] \<subseteq> set spaceRunes \<and> s = TrimRightSpace s @ concat [] \<and>
        trailingSpace (TrimRightSpace s) = 0" by simp
    then show ?thesis by blast
  next
    case False
    let ?r = "take (length s - trailingSpace s) s"
    from False have t: "TrimRightSpace s = TrimRightSpace ?r"
      by (subst TrimRightSpace.simps) simp
    from trailingSpace_pos[OF False] obtain q where q: "q \<in> set spaceRunes" "s = ?r @ q" by blast
    from 1[OF False] obtain rs where rs: "set rs \<subseteq> set spaceRunes"
      "?r = TrimRightSpace ?r @ concat rs" "trailingSpace (TrimRightSpace ?r) = 0" by blast
    have "s = (TrimRightSpace ?r @ concat rs) @ q" using q(2) rs(2) by metis
    then have "set (rs @ [q]) \<subseteq> set spaceRunes \<and> s = TrimRightSpace s @ concat (rs @ [q]) \<and>
        trailingSpace (TrimRightSpace s) = 0"
      using q(1) rs(1,3) t by simp
    then show ?thesis by blast
  qed
qed

lemma leadingSpace_prefix:
  assumes "leadingSpace (a @ b) = 0"
  shows "leadingSpace a = 0"
  unfolding leadingSpace_0_iff
proof
  fix q
  assume q: "q \<in> set spaceRunes"
  show "take (length q) a \<noteq> q"
  proof
    assume e: "take (length q) a = q"
    then have "length (take (length q) a) = length q" by simp
    then have "length q \<le> length a" by simp
    with e have "take (length q) (a @ b) = q" by simp
    with assms q show False by (simp add: leadingSpace_0_iff)
  qed
qed

lemma TrimSpace_spec:
  "\<exists>ls rs. set ls \<subseteq> set spaceRunes \<and> set rs \<subseteq> set spaceRunes \<and>
      s = concat ls @ TrimSpace s @ concat rs \<and>
      leadingSpace (TrimSpace s) = 0 \<and> trailingSpace (TrimSpace s) = 0"
proof -
  from TrimLeftSpace_spec[of s] obtain ls where ls: "set ls \<subseteq> set spaceRunes"
    "s = concat ls @ TrimLeftSpace s" "leadingSpace (TrimLeftSpace s) = 0" by blast
  from TrimRightSpace_spec[of "TrimLeftSpace s"] obtain rs where rs: "set rs \<subseteq> set spaceRunes"
    "TrimLeftSpace s = TrimSpace s @ concat rs" "trailingSpace (TrimSpace s) = 0"
    unfolding TrimSpace_def by blast
  from ls(3) rs(2) have "leadingSpace (TrimSpace s @ concat rs) = 0" by simp
  then have l0: "leadingSpace (TrimSpace s) = 0" by (rule leadingSpace_prefix)
  have "s = concat ls @ TrimSpace s @ concat rs" using ls(2) rs(2) by metis
  with ls(1) rs(1,3) l0 show ?thesis by blast
qed

lemma trim_examples:
  "map TrimSpace (Split ''tag1, tag2 ,tag3'' (CHR '','')) = [''tag1'', ''tag2'', ''tag3'']"
  "map TrimSpace (Split ''tag1,,tag3'' (CHR '','')) = [''tag1'', [], ''tag3'']"
  "map TrimSpace (Split '' tag1 , tag2 , tag3 '' (CHR '','')) = [''tag1'', ''tag2'', ''tag3'']"
  by (simp_all add: TrimSpace_def TrimLeftSpace.simps TrimRightSpace.simps leadingSpace_def
      trailingSpace_def spaceRunes_def)

text \<open>
  C6. String-list coercion: for every string-slice field bound to a non-empty
  environment value, the mapper sets the field to the comma-split of the value with
  \<open>TrimSpace\<close> applied to every element, and returns no error. The split is the
  comma-split: joining the elements with commas gives the value back and no element
  contains a comma, so the order is kept and there is one element more than there are
  commas, empty elements included. Trimming removes white space at both ends only: each
  element is its trimmed form between two runs of white-space runes, and the trimmed form
  neither starts nor ends with one. In particular "tag1, tag2 ,tag3" yields tag1, tag2,
  tag3 and "tag1,,tag3" yields tag1, the empty string, tag3.
\<close>

theorem string_list_coercion:
  assumes "map_of tags tag = Some envVar" and "envVar \<noteq> []"
    and "Getenv env (pfx @ envVar) = envValue" and "envValue \<noteq> []"
  shows
   "loadField L env (Field name True tags (VStrings old)) pfx tag =
      (Field name True tags (VStrings (map TrimSpace (Split envValue (CHR '','')))), None) \<and>
    concat (map ((#) (CHR '','')) (Split envValue (CHR '',''))) = CHR '','' # envValue \<and>
    (\<forall>p \<in> set (Split envValue (CHR '','')). CHR '','' \<notin> set p) \<and>
    length (map TrimSpace (Split envValue (CHR '',''))) = Suc (count_list envValue (CHR '','')) \<and>
    (\<forall>p. \<exists>ls rs. set ls \<subseteq> set spaceRunes \<and> set rs \<subseteq> set spaceRunes \<and>
        p = concat ls @ TrimSpace p @ concat rs \<and>
        leadingSpace (TrimSpace p) = 0 \<and> trailingSpace (TrimSpace p) = 0) \<and>
    map TrimSpace (Split ''tag1, tag2 ,tag3'' (CHR '','')) = [''tag1'', ''tag2'', ''tag3''] \<and>
    map TrimSpace (Split ''tag1,,tag3'' (CHR '','')) = [''tag1'', [], ''tag3'']"
proof (intro conjI allI ballI)
  have "overlayField L env pfx tag tags (VStrings old) =
      (VStrings (map TrimSpace (Split envValue (CHR '',''))), None)"
    unfolding overlayField_bound[OF assms] by simp
  then show "loadField L env (Field name True tags (VStrings old)) pfx tag =
      (Field name True tags (VStrings (map TrimSpace (Split envValue (CHR '','')))), None)"
    by simp
next
  show "concat (map ((#) (CHR '','')) (Split envValue (CHR '',''))) = CHR '','' # envValue"
    by (rule Split_join)
next
  fix p
  assume "p \<in> set (Split envValue (CHR '',''))"
  then show "CHR '','' \<notin> set p" by (rule Split_no_sep)
next
  show "length (map TrimSpace (Split envValue (CHR '',''))) = Suc (count_list envValue (CHR '',''))"
    by (simp add: length_Split)
next
  fix p
  show "\<exists>ls rs. set ls \<subseteq> set spaceRunes \<and> set rs \<subseteq> set spaceRunes \<and>
        p = concat ls @ TrimSpace p @ concat rs \<and>
        leadingSpace (TrimSpace p) = 0 \<and> trailingSpace (TrimSpace p) = 0"
    by (rule TrimSpace_spec)
next
  show "map TrimSpace (Split ''tag1, tag2 ,tag3'' (CHR '','')) = [''tag1'', ''tag2'', ''tag3'']"
    by (rule trim_examples(1))
next
  show "map TrimSpace (Split ''tag1,,tag3'' (CHR '','')) = [''tag1'', [], ''tag3'']"
    by (rule trim_examples(2))
qed

theorem string_list_coercion_witness:
  "loadField exampleLibrary [''TEST_TAGS'' \<mapsto> ''tag1, tag2 ,tag3'']
     (Field ''Tags'' True [(''json'', ''tags''), (''env'', ''TAGS'')] (VStrings [''default'']))
     ''TEST_'' ''env'' =
     (Field ''Tags'' True [(''json'', ''tags''), (''env'', ''TAGS'')]
        (VStrings [''tag1'', ''tag2'', ''tag3'']), None) \<and>
   loadField exampleLibrary [''TEST_TAGS'' \<mapsto> ''tag1,,tag3'']
     (Field ''Tags'' True [(''json'', ''tags''), (''env'', ''TAGS'')] (VStrings [''default'']))
     ''TEST_'' ''env'' =
     (Field ''Tags'' True [(''json'', ''tags''), (''env'', ''TAGS'')]
        (VStrings [''tag1'', [], ''tag3'']), None)"
proof -
  let ?tags = "[(''json'', ''tags''), (''env'', ''TAGS'')]"
  have t: "map_of ?tags ''env'' = Some ''TAGS''" and ne: "''TAGS'' \<noteq> []" by simp_all
  have g1: "Getenv [''TEST_TAGS'' \<mapsto> ''tag1, tag2 ,tag3''] (''TEST_'' @ ''TAGS'') = ''tag1, tag2 ,tag3''"
    and g2: "Getenv [''TEST_TAGS'' \<mapsto> ''tag1,,tag3''] (''TEST_'' @ ''TAGS'') = ''tag1,,tag3''"
    by (simp_all add: Getenv_def)
  have n1: "''tag1, tag2 ,tag3'' \<noteq> []" and n2: "''tag1,,tag3'' \<noteq> []" by simp_all
  note s1 = string_list_coercion[OF t ne g1 n1, of exampleLibrary "''Tags''" "[''default'']"]
  note s2 = string_list_coercion[OF t ne g2 n2, of exampleLibrary "''Tags''" "[''default'']"]
  have a: "loadField exampleLibrary [''TEST_TAGS'' \<mapsto> ''tag1, tag2 ,tag3'']
     (Field ''Tags'' True ?tags (VStrings [''default''])) ''TEST_'' ''env'' =
     (Field ''Tags'' True ?tags (VStrings [''tag1'', ''tag2'', ''tag3'']), None)"
    using s1[THEN conjunct1]
    unfolding s1[THEN conjunct2, THEN conjunct2, THEN conjunct2, THEN conjunct2, THEN conjunct2,
        THEN conjunct1] .
  have b: "loadField exampleLibrary [''TEST_TAGS'' \<mapsto> ''tag1,,tag3'']
     (Field ''Tags'' True ?tags (VStrings [''default''])) ''TEST_'' ''env'' =
     (Field ''Tags'' True ?tags (VStrings [''tag1'', [], ''tag3'']), None)"
    using s2[THEN conjunct1]
    unfolding s2[THEN conjunct2, THEN conjunct2, THEN conjunct2, THEN conjunct2, THEN conjunct2,
        THEN conjunct2] .
  show ?thesis by (intro conjI a b)
qed

subsection \<open>Log levels\<close>

text \<open>
  C10. \<open>logLevel\<close> is a total mapping on strings: it returns level 99 for "silent",
  \<open>LevelError\<close> for "error", \<open>LevelWarn\<close> for "warn", and \<open>LevelInfo\<close> for "info", for
  the empty string and for every other string, so an unknown or unset level name never
  fails and always defaults to info.
\<close>

theorem logLevel_total:
  "logLevel ''silent'' = 99 \<and>
   logLevel ''error'' = LevelError \<and>
   logLevel ''warn'' = LevelWarn \<and>
   logLevel ''info'' = LevelInfo \<and>
   logLevel '''' = LevelInfo \<and>
   (\<forall>v. v \<noteq> ''silent'' \<and> v \<noteq> ''error'' \<and> v \<noteq> ''warn'' \<longrightarrow> logLevel v = LevelInfo)"
  by (simp add: logLevel_def)

theorem logLevel_total_witness:
  "logLevel ''debug'' = LevelInfo \<and> logLevel ''silent'' = 99 \<and> LevelInfo = 0"
proof -
  have "''debug'' \<noteq> ''silent'' \<and> ''debug'' \<noteq> ''error'' \<and> ''debug'' \<noteq> ''warn''"
    by simp
  with logLevel_total show ?thesis
    by (simp add: LevelInfo_def)
qed

end
